theory Spec2Isabelle
  imports Complex_Main "HOL-Library.Multiset" "HOL-Library.Log_Nat"
begin

section \<open>JavaScript values\<close>

text \<open>
  The program (src/App.jsx) works on untyped documents read from local storage or from an
  imported file. A document is a JSON value; \<open>undefined\<close> is added because property reads
  produce it. Objects are association lists in property-creation order. An array carries
  its elements and the named properties that were assigned on it (none after parsing).

  Numbers are IEEE doubles: a finite number is the rational it denotes, and every
  arithmetic operation and every conversion from text rounds its exact result to the
  nearest double, ties to the even mantissa, with gradual underflow and with overflow to
  an infinity (subsection IEEE doubles). \<open>NaN\<close> and the two infinities are values of their
  own. The sign of zero is not kept: the program cannot observe it, since \<open>String\<close>,
  \<open>toFixed\<close>, \<open>===\<close>, \<open>Math.max(1, _)\<close> and \<open>JSON.stringify\<close> treat both zeros alike
  and it never divides by a zero.

  Strings are sequences of UTF-8 bytes; character indexing (the spread of a string)
  covers ASCII.
\<close>

datatype jsnum = Fin rat | NaN | PosInf | NegInf

datatype jsval =
    Undefined
  | Null
  | Bool bool
  | Num jsnum
  | Str string
  | Arr "jsval list" "(string \<times> jsval) list"
  | Obj "(string \<times> jsval) list"

datatype error = TypeError

type_synonym props = "(string \<times> jsval) list"

text \<open>The services of the runtime that the program calls and that are not its own code.\<close>

record env =
  uidOf :: "nat \<Rightarrow> string"
    \<comment> \<open>the identifier returned by the n-th call of \<open>uid()\<close>\<close>
  nowISO :: string
    \<comment> \<open>\<open>new Date().toISOString()\<close>, the clock held fixed\<close>
  dateShift :: "string \<Rightarrow> jsnum \<Rightarrow> string option"
    \<comment> \<open>\<open>d = new Date(s); d.setDate(d.getDate() + n); d.toISOString()\<close>;
        \<open>None\<close> when \<open>toISOString\<close> throws RangeError (invalid date)\<close>
  localeCompare :: "string \<Rightarrow> string \<Rightarrow> int"
    \<comment> \<open>\<open>a.localeCompare(b)\<close>: negative, zero or positive\<close>

subsection \<open>Truthiness, property access, object construction\<close>

fun Number_isFinite :: "jsnum \<Rightarrow> bool" where
  "Number_isFinite (Fin q) = True"
| "Number_isFinite _ = False"

fun truthy :: "jsval \<Rightarrow> bool" where
  "truthy Undefined = False"
| "truthy Null = False"
| "truthy (Bool b) = b"
| "truthy (Num (Fin q)) = (q \<noteq> 0)"
| "truthy (Num NaN) = False"
| "truthy (Num PosInf) = True"
| "truthy (Num NegInf) = True"
| "truthy (Str s) = (s \<noteq> [])"
| "truthy (Arr xs ps) = True"
| "truthy (Obj ps) = True"

text \<open>\<open>a || b\<close> and \<open>a ?? b\<close> on values whose evaluation has no effect.\<close>

definition js_or :: "jsval \<Rightarrow> jsval \<Rightarrow> jsval" where
  "js_or a b = (if truthy a then a else b)"

fun nullish :: "jsval \<Rightarrow> bool" where
  "nullish Undefined = True"
| "nullish Null = True"
| "nullish _ = False"

definition js_coalesce :: "jsval \<Rightarrow> jsval \<Rightarrow> jsval" where
  "js_coalesce a b = (if nullish a then b else a)"

text \<open>\<open>typeof v === "object"\<close>, \<open>typeof v === "string"\<close>, \<open>Array.isArray(v)\<close>.\<close>

fun typeof_object :: "jsval \<Rightarrow> bool" where
  "typeof_object Null = True"
| "typeof_object (Arr xs ps) = True"
| "typeof_object (Obj ps) = True"
| "typeof_object _ = False"

fun typeof_string :: "jsval \<Rightarrow> bool" where
  "typeof_string (Str s) = True"
| "typeof_string _ = False"

fun Array_isArray :: "jsval \<Rightarrow> bool" where
  "Array_isArray (Arr xs ps) = True"
| "Array_isArray _ = False"

fun elems :: "jsval \<Rightarrow> jsval list" where
  "elems (Arr xs ps) = xs"
| "elems _ = []"

text \<open>
  \<open>v.k\<close> for the property names that the program reads: \<open>settings\<close>, \<open>profile\<close>,
  \<open>clients\<close>, \<open>invoices\<close> and the field names of invoices, line items and clients.
  None of them is an index, \<open>length\<close> or a member of a built-in prototype, so the read
  finds an own property or yields \<open>undefined\<close>. Reading a property of \<open>null\<close> or
  \<open>undefined\<close> throws TypeError.
\<close>

fun lookup :: "props \<Rightarrow> string \<Rightarrow> jsval" where
  "lookup [] k = Undefined"
| "lookup ((k', v) # ps) k = (if k' = k then v else lookup ps k)"

fun getp :: "jsval \<Rightarrow> string \<Rightarrow> jsval" where
  "getp (Obj ps) k = lookup ps k"
| "getp (Arr xs ps) k = lookup ps k"
| "getp _ k = Undefined"

definition get :: "jsval \<Rightarrow> string \<Rightarrow> error + jsval" where
  "get v k = (if nullish v then Inl TypeError else Inr (getp v k))"

text \<open>
  \<open>o.k = v\<close> on an object, and the same step inside an object literal or a spread: an
  existing key keeps its place, a new key goes last. (JavaScript lists index-like keys
  first; the model keeps creation order for every key.)
\<close>

fun put :: "props \<Rightarrow> string \<Rightarrow> jsval \<Rightarrow> props" where
  "put [] k v = [(k, v)]"
| "put ((k', v') # ps) k v = (if k' = k then (k, v) # ps else (k', v') # put ps k v)"

fun assign :: "jsval \<Rightarrow> string \<Rightarrow> jsval \<Rightarrow> jsval" where
  "assign (Obj ps) k v = Obj (put ps k v)"
| "assign (Arr xs ps) k v = Arr xs (put ps k v)"
| "assign w k v = w"

fun putAll :: "props \<Rightarrow> props \<Rightarrow> props" where
  "putAll acc [] = acc"
| "putAll acc ((k, v) # ps) = putAll (put acc k v) ps"

subsection \<open>Decimal digits\<close>

text \<open>Numeric values are computed on \<open>int\<close>; \<open>nat\<close> only counts positions.\<close>

definition digit_char :: "int \<Rightarrow> char" where
  "digit_char d = char_of (48 + d)"

function int_digits :: "int \<Rightarrow> string" where
  "int_digits n = (if n < 10 then [digit_char n] else int_digits (n div 10) @ [digit_char (n mod 10)])"
  by pat_completeness auto
termination
  by (relation "measure nat") auto

declare int_digits.simps [simp del]

definition nat_digits :: "nat \<Rightarrow> string" where
  "nat_digits n = int_digits (int n)"

definition is_digit :: "char \<Rightarrow> bool" where
  "is_digit c = (48 \<le> (of_char c :: int) \<and> (of_char c :: int) \<le> 57)"

definition digit_val :: "char \<Rightarrow> int" where
  "digit_val c = of_char c - 48"

definition digits_val :: "string \<Rightarrow> int" where
  "digits_val s = foldl (\<lambda>acc c. 10 * acc + digit_val c) 0 s"

text \<open>The own enumerable properties that a spread \<open>{...v}\<close> copies.\<close>

fun indexed :: "nat \<Rightarrow> jsval list \<Rightarrow> props" where
  "indexed i [] = []"
| "indexed i (x # xs) = (nat_digits i, x) # indexed (Suc i) xs"

fun own_props :: "jsval \<Rightarrow> props" where
  "own_props (Obj ps) = ps"
| "own_props (Arr xs ps) = indexed 0 xs @ ps"
| "own_props (Str s) = indexed 0 (map (\<lambda>c. Str [c]) s)"
| "own_props _ = []"

text \<open>\<open>{...a, ...b}\<close> where \<open>a\<close> is given by its properties.\<close>

definition spread :: "props \<Rightarrow> jsval \<Rightarrow> props" where
  "spread ps b = putAll ps (own_props b)"

subsection \<open>IEEE doubles\<close>

text \<open>
  The positive doubles are the numbers \<open>m * 2^(e - 52)\<close> with \<open>2^52 \<le> m < 2^53\<close> and
  \<open>-1022 \<le> e \<le> 1023\<close> (normal) or \<open>0 < m < 2^52\<close> and \<open>e = -1022\<close> (subnormal).
  \<open>lg2 x\<close> is the binary exponent of a positive rational, \<open>rhe\<close> rounds to the nearest
  integer, a tie to the even one, \<open>grid x\<close> is the multiple of the unit in the last place
  of \<open>x\<close> that is nearest to \<open>x\<close>, and \<open>rnd x\<close> is the double, or the infinity, that an
  operation with the exact result \<open>x\<close> returns.
\<close>

definition pow2 :: "int \<Rightarrow> rat" where
  "pow2 e = (if 0 \<le> e then of_int (2 ^ nat e) else 1 / of_int (2 ^ nat (- e)))"

definition lg2 :: "rat \<Rightarrow> int" where
  "lg2 x =
     (let (a, b) = quotient_of x;
          d = bitlen a - bitlen b
      in if pow2 d \<le> x then d else d - 1)"

definition rhe :: "rat \<Rightarrow> int" where
  "rhe z =
     (let f = \<lfloor>z\<rfloor>;
          r = z - of_int f
      in if r < 1 / 2 then f else if 1 / 2 < r then f + 1 else if even f then f else f + 1)"

definition grid :: "rat \<Rightarrow> rat" where
  "grid x = (let u = pow2 (max (lg2 x) (- 1022) - 52) in of_int (rhe (x / u)) * u)"

definition rnd :: "rat \<Rightarrow> jsnum" where
  "rnd x =
     (if x = 0 then Fin 0
      else if 0 < x then (let y = grid x in if 1024 \<le> lg2 y then PosInf else Fin y)
      else (let y = grid (- x) in if 1024 \<le> lg2 y then NegInf else Fin (- y)))"

text \<open>The double that a number denotes; a value that is a double denotes itself.\<close>

fun nearest :: "jsnum \<Rightarrow> jsnum" where
  "nearest (Fin q) = rnd q"
| "nearest n = n"

subsection \<open>Conversions between strings and numbers\<close>

text \<open>
  \<open>Number::toString\<close> (radix 10) of a finite number \<open>x\<close>. The digits are those of the
  decimal \<open>s * 10^(n - k)\<close> with the fewest digits \<open>k\<close> that rounds to \<open>x\<close>; of several
  such decimals the one nearest to \<open>x\<close>, of two equally near the one with \<open>s\<close> even.
  The decimals that round to \<open>x\<close> form an interval around \<open>x\<close>, so for each \<open>k\<close> only
  the two \<open>k\<close>-digit decimals next to \<open>x\<close> are tried; 17 digits always suffice for a
  double. The decimal \<open>0.d1...dk * 10^n\<close> then prints positionally for \<open>-6 < n \<le> 21\<close> and
  in exponent notation otherwise.
\<close>

function dec_scale :: "int \<Rightarrow> int \<Rightarrow> int" where
  "dec_scale b k = (if b dvd 10 ^ nat k \<or> b \<le> k then k else dec_scale b (k + 1))"
  by pat_completeness auto
termination
  by (relation "measure (\<lambda>(b, k). nat (b - k))") auto

declare dec_scale.simps [simp del]

function strip_zeros :: "int \<Rightarrow> int \<Rightarrow> int \<times> int" where
  "strip_zeros n z = (if 0 < n \<and> n mod 10 = 0 then strip_zeros (n div 10) (z + 1) else (n, z))"
  by pat_completeness auto
termination
  by (relation "measure (\<lambda>(n, z). nat n)") auto

declare strip_zeros.simps [simp del]

definition scale10 :: "int \<Rightarrow> int \<Rightarrow> rat" where
  "scale10 m e = (if 0 \<le> e then of_int (m * 10 ^ nat e) else of_int m / of_int (10 ^ nat (- e)))"

definition dec_exp :: "rat \<Rightarrow> int" where
  "dec_exp x =
     (let (a, b) = quotient_of x;
          d = int (length (int_digits a)) - int (length (int_digits b))
      in if scale10 1 d \<le> x then d + 1 else d)"

fun shortest :: "nat \<Rightarrow> int \<Rightarrow> int \<Rightarrow> rat \<Rightarrow> rat" where
  "shortest 0 k n x = x"
| "shortest (Suc fuel) k n x =
     (let p = scale10 1 (n - k);
          s = \<lfloor>x / p\<rfloor>;
          lo = of_int s * p;
          hi = of_int (s + 1) * p;
          l = (rnd lo = Fin x);
          h = (rnd hi = Fin x)
      in if l \<and> (\<not> h \<or> x - lo < hi - x \<or> (x - lo = hi - x \<and> even s)) then lo
         else if h then hi
         else shortest fuel (k + 1) n x)"

definition shortestDecimal :: "rat \<Rightarrow> rat" where
  "shortestDecimal x = shortest 17 1 (dec_exp x) x"

definition posToString :: "rat \<Rightarrow> string" where
  "posToString q =
     (let (a, b) = quotient_of q;
          k = dec_scale b 0;
          (s, z) = strip_zeros ((a * 10 ^ nat k) div b) 0;
          ds = int_digits s;
          n = int (length ds) + z - k
      in if int (length ds) \<le> n \<and> n \<le> 21 then ds @ replicate (nat (n - int (length ds))) CHR ''0''
         else if 0 < n \<and> n \<le> 21 then take (nat n) ds @ ''.'' @ drop (nat n) ds
         else if - 6 < n \<and> n \<le> 0 then ''0.'' @ replicate (nat (- n)) CHR ''0'' @ ds
         else (if length ds = 1 then ds else take 1 ds @ ''.'' @ drop 1 ds)
              @ ''e'' @ (if 0 \<le> n - 1 then ''+'' else ''-'') @ int_digits \<bar>n - 1\<bar>)"

fun numToString :: "jsnum \<Rightarrow> string" where
  "numToString (Fin q) =
     (if q = 0 then ''0''
      else if q < 0 then ''-'' @ posToString (shortestDecimal (- q))
      else posToString (shortestDecimal q))"
| "numToString NaN = ''NaN''"
| "numToString PosInf = ''Infinity''"
| "numToString NegInf = ''-Infinity''"

text \<open>
  \<open>String(v)\<close>. An array prints its elements joined by commas, \<open>null\<close> and \<open>undefined\<close>
  elements as the empty string. A plain object prints as \<open>[object Object]\<close>; when a
  parsed object has an own property \<open>toString\<close> (which is a JSON value, so not callable),
  the conversion to a primitive finds no usable method and throws TypeError.
\<close>

fun has_key :: "props \<Rightarrow> string \<Rightarrow> bool" where
  "has_key [] k = False"
| "has_key ((k', v) # ps) k = (k' = k \<or> has_key ps k)"

fun joinWith :: "string \<Rightarrow> string list \<Rightarrow> string" where
  "joinWith sep [] = []"
| "joinWith sep [s] = s"
| "joinWith sep (s # t # ss) = s @ sep @ joinWith sep (t # ss)"

fun ToString :: "jsval \<Rightarrow> error + string"
  and ToStrings :: "jsval list \<Rightarrow> error + string list" where
  "ToString Undefined = Inr ''undefined''"
| "ToString Null = Inr ''null''"
| "ToString (Bool b) = Inr (if b then ''true'' else ''false'')"
| "ToString (Num n) = Inr (numToString n)"
| "ToString (Str s) = Inr s"
| "ToString (Arr xs ps) =
     (case ToStrings xs of Inl e \<Rightarrow> Inl e | Inr ss \<Rightarrow> Inr (joinWith '','' ss))"
| "ToString (Obj ps) = (if has_key ps ''toString'' then Inl TypeError else Inr ''[object Object]'')"
| "ToStrings [] = Inr []"
| "ToStrings (x # xs) =
     (case (if nullish x then Inr [] else ToString x) of
        Inl e \<Rightarrow> Inl e
      | Inr s \<Rightarrow> (case ToStrings xs of Inl e \<Rightarrow> Inl e | Inr ss \<Rightarrow> Inr (s # ss)))"

text \<open>
  \<open>s.trim()\<close> removes white space and line terminators at both ends: TAB, LF, VT, FF,
  CR, SP, and in UTF-8 the code points U+00A0, U+1680, U+2000 to U+200A, U+2028, U+2029,
  U+202F, U+205F, U+3000 and U+FEFF.
\<close>

definition white_space :: "string list" where
  "white_space =
     map (map char_of)
       [[9 :: int], [10], [11], [12], [13], [32],
        [194, 160], [225, 154, 128],
        [226, 128, 128], [226, 128, 129], [226, 128, 130], [226, 128, 131], [226, 128, 132],
        [226, 128, 133], [226, 128, 134], [226, 128, 135], [226, 128, 136], [226, 128, 137],
        [226, 128, 138], [226, 128, 168], [226, 128, 169], [226, 128, 175], [226, 129, 159],
        [227, 128, 128], [239, 187, 191]]"

function strip :: "string list \<Rightarrow> string \<Rightarrow> string" where
  "strip ws s =
     (case filter (\<lambda>w. w \<noteq> [] \<and> take (length w) s = w) ws of
        [] \<Rightarrow> s
      | w # _ \<Rightarrow> strip ws (drop (length w) s))"
  by pat_completeness auto
termination
proof (relation "measure (\<lambda>(ws, s). length s)")
  show "wf (measure (\<lambda>(ws :: string list, s :: string). length s))"
    by simp
next
  fix ws :: "string list" and s w :: string and r :: "string list"
  assume "filter (\<lambda>w. w \<noteq> [] \<and> take (length w) s = w) ws = w # r"
  then have "w \<in> set (filter (\<lambda>w. w \<noteq> [] \<and> take (length w) s = w) ws)"
    by simp
  then have w: "w \<noteq> []" "take (length w) s = w"
    by simp_all
  then have "s \<noteq> []"
    by auto
  with w show "((ws, drop (length w) s), (ws, s)) \<in> measure (\<lambda>(ws, s). length s)"
    by simp
qed

declare strip.simps [simp del]

definition trim :: "string \<Rightarrow> string" where
  "trim s = rev (strip (map rev white_space) (rev (strip white_space s)))"

text \<open>
  \<open>Number(s)\<close> on a string: white space is trimmed, the empty string is 0, then a
  hexadecimal, octal or binary integer literal, or a signed decimal literal or
  \<open>Infinity\<close>; anything else is \<open>NaN\<close>. The value of a literal is rounded to the nearest
  double.
\<close>

definition radix_val :: "int \<Rightarrow> char \<Rightarrow> int option" where
  "radix_val r c =
     (let n = (of_char c :: int);
          d = (if 48 \<le> n \<and> n \<le> 57 then n - 48
               else if 97 \<le> n \<and> n \<le> 102 then n - 87
               else if 65 \<le> n \<and> n \<le> 70 then n - 55
               else r)
      in if d < r then Some d else None)"

fun radix_digits :: "int \<Rightarrow> int \<Rightarrow> string \<Rightarrow> jsnum" where
  "radix_digits r acc [] = rnd (of_int acc)"
| "radix_digits r acc (c # cs) =
     (case radix_val r c of None \<Rightarrow> NaN | Some d \<Rightarrow> radix_digits r (r * acc + d) cs)"

definition exponentPart :: "string \<Rightarrow> int option" where
  "exponentPart s =
     (case s of
        [] \<Rightarrow> Some 0
      | c # r \<Rightarrow>
          if c = CHR ''e'' \<or> c = CHR ''E'' then
            (let neg = (r \<noteq> [] \<and> hd r = CHR ''-'');
                 ds = (if r \<noteq> [] \<and> (hd r = CHR ''-'' \<or> hd r = CHR ''+'') then tl r else r)
             in if ds \<noteq> [] \<and> list_all is_digit ds
                then Some (if neg then - digits_val ds else digits_val ds)
                else None)
          else None)"

definition unsignedDecimal :: "string \<Rightarrow> rat option" where
  "unsignedDecimal s =
     (let ip = takeWhile is_digit s;
          r1 = dropWhile is_digit s;
          dot = (r1 \<noteq> [] \<and> hd r1 = CHR ''.'');
          fp = (if dot then takeWhile is_digit (tl r1) else []);
          r2 = (if dot then dropWhile is_digit (tl r1) else r1)
      in if ip = [] \<and> fp = [] then None
         else (case exponentPart r2 of
                 None \<Rightarrow> None
               | Some e \<Rightarrow> Some (scale10 (digits_val (ip @ fp)) (e - int (length fp)))))"

definition signedDecimal :: "string \<Rightarrow> jsnum" where
  "signedDecimal s =
     (let neg = (s \<noteq> [] \<and> hd s = CHR ''-'');
          u = (if s \<noteq> [] \<and> (hd s = CHR ''-'' \<or> hd s = CHR ''+'') then tl s else s)
      in if u = ''Infinity'' then (if neg then NegInf else PosInf)
         else (case unsignedDecimal u of
                 None \<Rightarrow> NaN
               | Some q \<Rightarrow> rnd (if neg then - q else q)))"

definition StringToNumber :: "string \<Rightarrow> jsnum" where
  "StringToNumber s0 =
     (let s = trim s0
      in if s = [] then Fin 0
         else if length s > 2 \<and> (take 2 s = ''0x'' \<or> take 2 s = ''0X'') then radix_digits 16 0 (drop 2 s)
         else if length s > 2 \<and> (take 2 s = ''0o'' \<or> take 2 s = ''0O'') then radix_digits 8 0 (drop 2 s)
         else if length s > 2 \<and> (take 2 s = ''0b'' \<or> take 2 s = ''0B'') then radix_digits 2 0 (drop 2 s)
         else signedDecimal s)"

text \<open>\<open>Number(v)\<close> on any value.\<close>

fun ToNumber :: "jsval \<Rightarrow> error + jsnum" where
  "ToNumber Undefined = Inr NaN"
| "ToNumber Null = Inr (Fin 0)"
| "ToNumber (Bool b) = Inr (Fin (if b then 1 else 0))"
| "ToNumber (Num n) = Inr n"
| "ToNumber (Str s) = Inr (StringToNumber s)"
| "ToNumber v = (case ToString v of Inl e \<Rightarrow> Inl e | Inr s \<Rightarrow> Inr (StringToNumber s))"

text \<open>\<open>s.replace(",", ".")\<close>: the first comma only.\<close>

fun replace_comma :: "string \<Rightarrow> string" where
  "replace_comma [] = []"
| "replace_comma (c # cs) = (if c = CHR '','' then CHR ''.'' # cs else c # replace_comma cs)"

subsection \<open>Arithmetic\<close>

text \<open>\<open>x + y\<close>, \<open>x * y\<close> and \<open>x / y\<close> on numbers: the exact result, rounded.\<close>

fun num_add :: "jsnum \<Rightarrow> jsnum \<Rightarrow> jsnum" where
  "num_add (Fin a) (Fin b) = rnd (a + b)"
| "num_add NaN y = NaN"
| "num_add x NaN = NaN"
| "num_add PosInf NegInf = NaN"
| "num_add NegInf PosInf = NaN"
| "num_add PosInf y = PosInf"
| "num_add NegInf y = NegInf"
| "num_add x PosInf = PosInf"
| "num_add x NegInf = NegInf"

definition num_neg :: "jsnum \<Rightarrow> jsnum" where
  "num_neg x = (case x of Fin a \<Rightarrow> Fin (- a) | NaN \<Rightarrow> NaN | PosInf \<Rightarrow> NegInf | NegInf \<Rightarrow> PosInf)"

definition inf_times :: "jsnum \<Rightarrow> rat \<Rightarrow> jsnum" where
  "inf_times i a = (if a = 0 then NaN else if 0 < a then i else num_neg i)"

fun num_mul :: "jsnum \<Rightarrow> jsnum \<Rightarrow> jsnum" where
  "num_mul (Fin a) (Fin b) = rnd (a * b)"
| "num_mul NaN y = NaN"
| "num_mul x NaN = NaN"
| "num_mul x (Fin b) = inf_times x b"
| "num_mul (Fin a) y = inf_times y a"
| "num_mul x y = (if x = y then PosInf else NegInf)"

fun num_div :: "jsnum \<Rightarrow> jsnum \<Rightarrow> jsnum" where
  "num_div (Fin a) (Fin b) =
     (if b = 0 then (if a = 0 then NaN else if 0 < a then PosInf else NegInf) else rnd (a / b))"
| "num_div NaN y = NaN"
| "num_div x NaN = NaN"
| "num_div (Fin a) y = Fin 0"
| "num_div x (Fin b) = (if 0 \<le> b then x else num_neg x)"
| "num_div x y = NaN"

text \<open>\<open>Math.max(1, n)\<close>.\<close>

fun max1 :: "jsnum \<Rightarrow> jsnum" where
  "max1 (Fin a) = Fin (max 1 a)"
| "max1 NaN = NaN"
| "max1 PosInf = PosInf"
| "max1 NegInf = Fin 1"

section \<open>The helpers of App.jsx\<close>

text \<open>
  \<open>toNumber\<close> (lines 30-33): \<open>Number(String(v ?? "").replace(",", "."))\<close>, and 0 when that
  is not finite. For a number \<open>v\<close> the text \<open>String(v)\<close> has no comma and reads back as
  the double \<open>v\<close> (the round trip that \<open>Number::toString\<close> guarantees), so that case is
  written without the detour through the text.
\<close>

definition finite_or_zero :: "jsnum \<Rightarrow> jsnum" where
  "finite_or_zero n = (if Number_isFinite n then n else Fin 0)"

fun toNumber :: "jsval \<Rightarrow> error + jsnum" where
  "toNumber (Num n) = Inr (finite_or_zero (nearest n))"
| "toNumber v =
     (case ToString (js_coalesce v (Str [])) of
        Inl e \<Rightarrow> Inl e
      | Inr s \<Rightarrow> Inr (finite_or_zero (StringToNumber (replace_comma s))))"

text \<open>\<open>todayISO\<close> (line 35) and \<open>addDaysISO\<close> (lines 37-45).\<close>

definition todayISO :: "env \<Rightarrow> jsval" where
  "todayISO E = Str (take 10 (nowISO E))"

definition addDaysISO :: "env \<Rightarrow> jsval \<Rightarrow> jsval \<Rightarrow> jsval" where
  "addDaysISO E d0 days =
     (case ToString d0 of
        Inl e \<Rightarrow> d0
      | Inr s \<Rightarrow>
          (case ToNumber (js_or days (Num (Fin 0))) of
             Inl e \<Rightarrow> d0
           | Inr n \<Rightarrow>
               (case dateShift E (s @ ''T00:00:00'') n of
                  None \<Rightarrow> d0
                | Some t \<Rightarrow> Str (take 10 t))))"

text \<open>\<open>calcTotals\<close> (lines 82-89).\<close>

record totals =
  net :: jsnum
  vatRate :: jsnum
  vat :: jsnum
  gross :: jsnum

fun sumItems :: "jsnum \<Rightarrow> jsval list \<Rightarrow> error + jsnum" where
  "sumItems s [] = Inr s"
| "sumItems s (it # its) =
     (case get it ''qty'' of
        Inl e \<Rightarrow> Inl e
      | Inr q \<Rightarrow>
          (case toNumber q of
             Inl e \<Rightarrow> Inl e
           | Inr a \<Rightarrow>
               (case toNumber (getp it ''unitPrice'') of
                  Inl e \<Rightarrow> Inl e
                | Inr b \<Rightarrow> sumItems (num_add s (num_mul a b)) its)))"

definition calcTotals :: "jsval \<Rightarrow> error + totals" where
  "calcTotals iv =
     (case get iv ''items'' of
        Inl e \<Rightarrow> Inl e
      | Inr its \<Rightarrow>
          (let items = (if Array_isArray its then elems its else [])
           in case sumItems (Fin 0) items of
                Inl e \<Rightarrow> Inl e
              | Inr n \<Rightarrow>
                  (case toNumber (getp iv ''vatRate'') of
                     Inl e \<Rightarrow> Inl e
                   | Inr r \<Rightarrow>
                       (let v = num_mul n (num_div r (Fin 100))
                        in Inr \<lparr>net = n, vatRate = r, vat = v, gross = num_add n v\<rparr>))))"

section \<open>normalizeData (lines 91-154)\<close>

definition base_settings :: props where
  "base_settings =
     [(''currency'', Str ''EUR''),
      (''defaultVatRate'', Num (Fin 19)),
      (''invoicePrefix'', Str ''INV''),
      (''nextInvoiceNumber'', Num (Fin 1)),
      (''defaultDueDays'', Num (Fin 14))]"

definition base_profile :: props where
  "base_profile =
     [(''businessName'', Str []), (''address'', Str []), (''email'', Str []),
      (''phone'', Str []), (''taxId'', Str []), (''vatId'', Str []), (''bank'', Str []),
      (''iban'', Str []), (''bic'', Str []), (''footerNotes'', Str [])]"

definition base :: jsval where
  "base =
     Obj [(''settings'', Obj base_settings), (''profile'', Obj base_profile),
          (''clients'', Arr [] []), (''invoices'', Arr [] [])]"

definition STATUS :: "jsval list" where
  "STATUS = [Str ''Draft'', Str ''Sent'', Str ''Paid'', Str ''Overdue'']"

text \<open>
  \<open>v || uid()\<close>: the generator is called, and moves on, only when \<open>v\<close> is falsy. The
  generator's state is the number of identifiers handed out so far.
\<close>

definition or_uid :: "env \<Rightarrow> nat \<Rightarrow> jsval \<Rightarrow> jsval \<times> nat" where
  "or_uid E g v = (if truthy v then (v, g) else (Str (uidOf E g), Suc g))"

text \<open>\<open>xs.map(f)\<close> for a callback that may throw and may call \<open>uid()\<close>.\<close>

fun mapM :: "(nat \<Rightarrow> jsval \<Rightarrow> error + (jsval \<times> nat)) \<Rightarrow> nat \<Rightarrow> jsval list \<Rightarrow> error + (jsval list \<times> nat)" where
  "mapM f g [] = Inr ([], g)"
| "mapM f g (x # xs) =
     (case f g x of
        Inl e \<Rightarrow> Inl e
      | Inr (y, g1) \<Rightarrow>
          (case mapM f g1 xs of
             Inl e \<Rightarrow> Inl e
           | Inr (ys, g2) \<Rightarrow> Inr (y # ys, g2)))"

text \<open>
  \<open>Number.isFinite(toNumber(v)) ? toNumber(v) : dflt\<close> (lines 130, 135, 137); the second
  call of \<open>toNumber\<close> returns what the first did.
\<close>

definition finiteOr :: "jsval \<Rightarrow> jsval \<Rightarrow> error + jsval" where
  "finiteOr v dflt =
     (case toNumber v of
        Inl e \<Rightarrow> Inl e
      | Inr n \<Rightarrow> Inr (if Number_isFinite n then Num n else dflt))"

text \<open>The callback of lines 132-138, on one line item.\<close>

definition normItem :: "env \<Rightarrow> nat \<Rightarrow> jsval \<Rightarrow> error + (jsval \<times> nat)" where
  "normItem E g it =
     (if nullish it then Inl TypeError
      else
        (let (i, g1) = or_uid E g (getp it ''id'')
         in case finiteOr (getp it ''qty'') (Num (Fin 1)) of
              Inl e \<Rightarrow> Inl e
            | Inr q \<Rightarrow>
                (case finiteOr (getp it ''unitPrice'') (Num (Fin 0)) of
                   Inl e \<Rightarrow> Inl e
                 | Inr p \<Rightarrow>
                     Inr (Obj [(''id'', i),
                               (''desc'', js_or (getp it ''desc'') (Str [])),
                               (''qty'', q),
                               (''unit'', js_or (getp it ''unit'') (Str [])),
                               (''unitPrice'', p)], g1))))"

definition blank_item :: "jsval \<Rightarrow> jsval" where
  "blank_item i =
     Obj [(''id'', i), (''desc'', Str []), (''qty'', Num (Fin 1)), (''unit'', Str []),
          (''unitPrice'', Num (Fin 0))]"

text \<open>The callback of lines 123-141, on one invoice; \<open>st\<close> is \<open>d.settings\<close>.\<close>

definition normInvoice :: "env \<Rightarrow> jsval \<Rightarrow> nat \<Rightarrow> jsval \<Rightarrow> error + (jsval \<times> nat)" where
  "normInvoice E st g iv =
     (if nullish iv then Inl TypeError
      else
        (let (i, g1) = or_uid E g (getp iv ''id'');
             issue = js_or (getp iv ''issueDate'') (todayISO E);
             due = js_or (getp iv ''dueDate'') (addDaysISO E issue (getp st ''defaultDueDays''))
         in case finiteOr (getp iv ''vatRate'') (getp st ''defaultVatRate'') of
              Inl e \<Rightarrow> Inl e
            | Inr r \<Rightarrow>
                (case (if Array_isArray (getp iv ''items'')
                       then mapM (normItem E) g1 (elems (getp iv ''items''))
                       else Inr ([blank_item (Str (uidOf E g1))], Suc g1)) of
                   Inl e \<Rightarrow> Inl e
                 | Inr (its, g2) \<Rightarrow>
                     Inr (Obj [(''id'', i),
                               (''invoiceNumber'', js_or (getp iv ''invoiceNumber'') (Str [])),
                               (''issueDate'', issue),
                               (''dueDate'', due),
                               (''clientId'', js_or (getp iv ''clientId'') (Str [])),
                               (''status'', if getp iv ''status'' \<in> set STATUS
                                            then getp iv ''status'' else Str ''Draft''),
                               (''vatRate'', r),
                               (''items'', Arr its []),
                               (''notes'', if typeof_string (getp iv ''notes'')
                                           then getp iv ''notes'' else Str [])], g2))))"

text \<open>The callback of lines 143-151, on one client.\<close>

definition normClient :: "env \<Rightarrow> nat \<Rightarrow> jsval \<Rightarrow> error + (jsval \<times> nat)" where
  "normClient E g c =
     (if nullish c then Inl TypeError
      else
        (let (i, g1) = or_uid E g (getp c ''id'')
         in Inr (Obj [(''id'', i),
                      (''name'', js_or (getp c ''name'') (Str [])),
                      (''address'', js_or (getp c ''address'') (Str [])),
                      (''email'', js_or (getp c ''email'') (Str [])),
                      (''phone'', js_or (getp c ''phone'') (Str [])),
                      (''contact'', js_or (getp c ''contact'') (Str [])),
                      (''notes'', js_or (getp c ''notes'') (Str []))], g1)))"

definition arrayOrEmpty :: "jsval \<Rightarrow> jsval" where
  "arrayOrEmpty v = (if Array_isArray v then v else Arr [] [])"

text \<open>
  Lines 116-153 on the contents \<open>d\<close> of the object that the variable \<open>d\<close> refers to:
  four assignments, then the two maps. The result is the final contents of that object.
\<close>

definition normalizeSteps :: "env \<Rightarrow> nat \<Rightarrow> jsval \<Rightarrow> error + (jsval \<times> nat)" where
  "normalizeSteps E g d =
     (let st = Obj (spread base_settings (js_or (getp d ''settings'') (Obj [])));
          d1 = assign d ''settings'' st;
          d2 = assign d1 ''profile'' (Obj (spread base_profile (js_or (getp d1 ''profile'') (Obj []))));
          d3 = assign d2 ''clients'' (arrayOrEmpty (getp d2 ''clients''));
          d4 = assign d3 ''invoices'' (arrayOrEmpty (getp d3 ''invoices''))
      in case mapM (normInvoice E (getp d4 ''settings'')) g (elems (getp d4 ''invoices'')) of
           Inl e \<Rightarrow> Inl e
         | Inr (ivs, g1) \<Rightarrow>
             (let d5 = assign d4 ''invoices'' (Arr ivs [])
              in case mapM (normClient E) g1 (elems (getp d5 ''clients'')) of
                   Inl e \<Rightarrow> Inl e
                 | Inr (cs, g2) \<Rightarrow> Inr (assign d5 ''clients'' (Arr cs []), g2)))"

text \<open>
  \<open>normalizeData\<close> as a function from the document to the returned state. Line 116: \<open>d\<close>
  is \<open>raw\<close> itself when \<open>raw\<close> is a non-null object, and the new object \<open>base\<close> otherwise.
\<close>

definition normalizeData :: "env \<Rightarrow> nat \<Rightarrow> jsval \<Rightarrow> error + (jsval \<times> nat)" where
  "normalizeData E g raw =
     normalizeSteps E g (if truthy raw \<and> typeof_object raw then raw else base)"





section \<open>The operations of the component (lines 156-410)\<close>

text \<open>
  The state of the component that the operations below read and write: the application
  state \<open>app\<close>, the selected invoice, the flag of the invoice dialog, the notices raised
  by \<open>notify\<close> so far (oldest first), and the state of the identifier generator.
\<close>

record ui =
  app :: jsval
  activeInvoiceId :: jsval
  invoiceModalOpen :: bool
  toasts :: "string list"
  gen :: nat

definition notify :: "string \<Rightarrow> ui \<Rightarrow> ui" where
  "notify msg u = u\<lparr>toasts := toasts u @ [msg]\<rparr>"

text \<open>
  \<open>a === b\<close>. Two objects are equal only when they are the same object; the model has
  no object identity and takes two object operands to be different objects, as any two
  entries of a parsed document are.
\<close>

fun strict_eq :: "jsval \<Rightarrow> jsval \<Rightarrow> bool" where
  "strict_eq Undefined Undefined = True"
| "strict_eq Null Null = True"
| "strict_eq (Bool a) (Bool b) = (a = b)"
| "strict_eq (Num a) (Num b) = (a \<noteq> NaN \<and> a = b)"
| "strict_eq (Str a) (Str b) = (a = b)"
| "strict_eq a b = False"

text \<open>
  \<open>safeParse\<close> (lines 21-28); the argument is the outcome of \<open>JSON.parse\<close>, \<open>None\<close> when
  it throws.
\<close>

definition safeParse :: "jsval option \<Rightarrow> jsval \<Rightarrow> jsval" where
  "safeParse p fallback = (case p of None \<Rightarrow> fallback | Some v \<Rightarrow> js_coalesce v fallback)"

text \<open>\<open>importJSON\<close> (lines 247-258), for a file that is present.\<close>

definition import_rejected :: "jsval \<Rightarrow> bool" where
  "import_rejected parsed =
     (\<not> truthy parsed \<or>
      (\<not> truthy (getp parsed ''clients'') \<and> \<not> truthy (getp parsed ''invoices'')
       \<and> \<not> truthy (getp parsed ''settings'')))"

definition importJSON :: "env \<Rightarrow> jsval option \<Rightarrow> ui \<Rightarrow> error + ui" where
  "importJSON E p u =
     (let parsed = safeParse p Null
      in if import_rejected parsed then Inr (notify ''Invalid JSON'' u)
         else (case normalizeData E (gen u) parsed of
                 Inl e \<Rightarrow> Inl e
               | Inr (d, g') \<Rightarrow>
                   Inr (notify ''Imported'' (u\<lparr>app := d, activeInvoiceId := Null, gen := g'\<rparr>))))"

text \<open>Pieces shared by \<open>createInvoice\<close> and \<open>duplicateInvoice\<close>.\<close>

definition padStart4 :: "string \<Rightarrow> string" where
  "padStart4 s = replicate (4 - length s) CHR ''0'' @ s"

text \<open>\<open>[...v]\<close>: the elements of an array, the characters of a string; other values are not iterable.\<close>

fun iterate :: "jsval \<Rightarrow> error + jsval list" where
  "iterate (Arr xs ps) = Inr xs"
| "iterate (Str s) = Inr (map (\<lambda>c. Str [c]) s)"
| "iterate v = Inl TypeError"

text \<open>
  Lines 317-321 and 350-352: the number \<open>n\<close> and the text \<open>invoiceNumber\<close>, from
  \<open>a.settings\<close>.
\<close>

definition nextNumber :: "jsval \<Rightarrow> error + jsnum" where
  "nextNumber a =
     (case get a ''settings'' of
        Inl e \<Rightarrow> Inl e
      | Inr st \<Rightarrow>
          (case get st ''nextInvoiceNumber'' of
             Inl e \<Rightarrow> Inl e
           | Inr v \<Rightarrow> (case toNumber v of Inl e \<Rightarrow> Inl e | Inr n \<Rightarrow> Inr (max1 n))))"

definition invoiceNumberText :: "jsval \<Rightarrow> jsnum \<Rightarrow> error + string" where
  "invoiceNumberText st n =
     (case ToString (js_or (getp st ''invoicePrefix'') (Str ''INV'')) of
        Inl e \<Rightarrow> Inl e
      | Inr s \<Rightarrow>
          Inr ((if trim s = [] then ''INV'' else trim s) @ ''-'' @ padStart4 (numToString n)))"

definition defaultDue :: "env \<Rightarrow> jsval \<Rightarrow> error + jsval" where
  "defaultDue E st =
     (case toNumber (getp st ''defaultDueDays'') of
        Inl e \<Rightarrow> Inl e
      | Inr dd \<Rightarrow> Inr (addDaysISO E (todayISO E) (js_or (Num dd) (Num (Fin 14)))))"

text \<open>The state returned by both updaters (lines 338-342 and 365-369).\<close>

definition withNewInvoice :: "jsval \<Rightarrow> jsval \<Rightarrow> jsnum \<Rightarrow> jsval \<Rightarrow> error + jsval" where
  "withNewInvoice a st n iv =
     (case iterate (js_or (getp a ''invoices'') (Arr [] [])) of
        Inl e \<Rightarrow> Inl e
      | Inr rest \<Rightarrow>
          Inr (Obj (put (put (own_props a) ''settings''
                           (Obj (put (own_props st) ''nextInvoiceNumber'' (Num (num_add n (Fin 1))))))
                        ''invoices'' (Arr (iv # rest) []))))"

text \<open>\<open>createInvoice\<close> (lines 315-344).\<close>

definition createInvoice :: "env \<Rightarrow> ui \<Rightarrow> error + ui" where
  "createInvoice E u =
     (case nextNumber (app u) of
        Inl e \<Rightarrow> Inl e
      | Inr n \<Rightarrow>
          (let st = getp (app u) ''settings''
           in case invoiceNumberText st n of
                Inl e \<Rightarrow> Inl e
              | Inr num \<Rightarrow>
                  (case defaultDue E st of
                     Inl e \<Rightarrow> Inl e
                   | Inr due \<Rightarrow>
                       (case toNumber (getp st ''defaultVatRate'') of
                          Inl e \<Rightarrow> Inl e
                        | Inr r \<Rightarrow>
                            (let iv = Obj [(''id'', Str (uidOf E (gen u))),
                                           (''invoiceNumber'', Str num),
                                           (''issueDate'', todayISO E),
                                           (''dueDate'', due),
                                           (''clientId'', Str []),
                                           (''status'', Str ''Draft''),
                                           (''vatRate'', Num r),
                                           (''items'', Arr [blank_item (Str (uidOf E (Suc (gen u))))] []),
                                           (''notes'', Str [])]
                             in case withNewInvoice (app u) st n iv of
                                  Inl e \<Rightarrow> Inl e
                                | Inr a' \<Rightarrow>
                                    Inr (u\<lparr>app := a', activeInvoiceId := Str (uidOf E (gen u)),
                                            invoiceModalOpen := True, gen := Suc (Suc (gen u))\<rparr>))))))"

text \<open>\<open>xs.find(x => x.id === id)\<close>; \<open>undefined\<close> when no element matches.\<close>

fun findById :: "jsval \<Rightarrow> jsval list \<Rightarrow> error + jsval" where
  "findById i [] = Inr Undefined"
| "findById i (x # xs) =
     (case get x ''id'' of
        Inl e \<Rightarrow> Inl e
      | Inr v \<Rightarrow> if strict_eq v i then Inr x else findById i xs)"

text \<open>\<open>items.map((it) => ({ ...it, id: uid() }))\<close> (line 361).\<close>

fun freshIds :: "env \<Rightarrow> nat \<Rightarrow> jsval list \<Rightarrow> jsval list \<times> nat" where
  "freshIds E g [] = ([], g)"
| "freshIds E g (it # its) =
     (let (ys, g') = freshIds E (Suc g) its
      in (Obj (put (own_props it) ''id'' (Str (uidOf E g))) # ys, g'))"

text \<open>\<open>duplicateInvoice\<close> (lines 346-371).\<close>

definition duplicateInvoice :: "env \<Rightarrow> jsval \<Rightarrow> ui \<Rightarrow> error + ui" where
  "duplicateInvoice E i u =
     (case get (app u) ''invoices'' of
        Inl e \<Rightarrow> Inl e
      | Inr ivs \<Rightarrow>
          if \<not> Array_isArray ivs then Inl TypeError
          else
            (case findById i (elems ivs) of
               Inl e \<Rightarrow> Inl e
             | Inr src \<Rightarrow>
                 if \<not> truthy src then Inr u
                 else
                   (case nextNumber (app u) of
                      Inl e \<Rightarrow> Inl e
                    | Inr n \<Rightarrow>
                        (let st = getp (app u) ''settings''
                         in case invoiceNumberText st n of
                              Inl e \<Rightarrow> Inl e
                            | Inr num \<Rightarrow>
                                (case defaultDue E st of
                                   Inl e \<Rightarrow> Inl e
                                 | Inr due \<Rightarrow>
                                     (let its = js_or (getp src ''items'') (Arr [] [])
                                      in if \<not> Array_isArray its then Inl TypeError
                                         else
                                           (let (its', g') = freshIds E (Suc (gen u)) (elems its);
                                                copy =
                                                  Obj (put (put (put (put (put (put (own_props src)
                                                    ''id'' (Str (uidOf E (gen u))))
                                                    ''invoiceNumber'' (Str num))
                                                    ''status'' (Str ''Draft''))
                                                    ''issueDate'' (todayISO E))
                                                    ''dueDate'' due)
                                                    ''items'' (Arr its' []))
                                            in case withNewInvoice (app u) st n copy of
                                                 Inl e \<Rightarrow> Inl e
                                               | Inr a' \<Rightarrow>
                                                   Inr (notify ''Duplicated'' (u\<lparr>app := a', gen := g'\<rparr>)))))))))"

text \<open>\<open>xs.map(f)\<close> for a callback that may throw.\<close>

fun mapE :: "(jsval \<Rightarrow> error + jsval) \<Rightarrow> jsval list \<Rightarrow> error + jsval list" where
  "mapE f [] = Inr []"
| "mapE f (x # xs) =
     (case f x of
        Inl e \<Rightarrow> Inl e
      | Inr y \<Rightarrow> (case mapE f xs of Inl e \<Rightarrow> Inl e | Inr ys \<Rightarrow> Inr (y # ys)))"

text \<open>\<open>(a.invoices || [])\<close> and \<open>(a.clients || [])\<close> as the receiver of \<open>map\<close> or \<open>filter\<close>.\<close>

definition listOrEmpty :: "jsval \<Rightarrow> error + jsval list" where
  "listOrEmpty v = (if \<not> truthy v then Inr [] else if Array_isArray v then Inr (elems v) else Inl TypeError)"



text \<open>
  \<open>deleteClient\<close> (lines 398-410); \<open>ok\<close> is the answer to \<open>window.confirm\<close>. The name for
  the dialog is trimmed, which throws when the name is neither falsy nor a string.
\<close>

definition clearClient :: "jsval \<Rightarrow> jsval \<Rightarrow> error + jsval" where
  "clearClient i x =
     (case get x ''clientId'' of
        Inl e \<Rightarrow> Inl e
      | Inr c \<Rightarrow> Inr (if strict_eq c i then Obj (put (own_props x) ''clientId'' (Str [])) else x))"

fun filterOthers :: "jsval \<Rightarrow> jsval list \<Rightarrow> error + jsval list" where
  "filterOthers i [] = Inr []"
| "filterOthers i (x # xs) =
     (case get x ''id'' of
        Inl e \<Rightarrow> Inl e
      | Inr v \<Rightarrow>
          (case filterOthers i xs of
             Inl e \<Rightarrow> Inl e
           | Inr ys \<Rightarrow> Inr (if strict_eq v i then ys else x # ys)))"

definition deleteClient :: "bool \<Rightarrow> jsval \<Rightarrow> ui \<Rightarrow> error + ui" where
  "deleteClient ok i u =
     (case get (app u) ''clients'' of
        Inl e \<Rightarrow> Inl e
      | Inr cl \<Rightarrow>
          if \<not> Array_isArray cl then Inl TypeError
          else
            (case findById i (elems cl) of
               Inl e \<Rightarrow> Inl e
             | Inr c \<Rightarrow>
                 if \<not> typeof_string (js_or (if nullish c then Undefined else getp c ''name'') (Str ''this client''))
                 then Inl TypeError
                 else if \<not> ok then Inr u
                 else
                   (case listOrEmpty (getp (app u) ''invoices'') of
                      Inl e \<Rightarrow> Inl e
                    | Inr xs \<Rightarrow>
                        (case mapE (clearClient i) xs of
                           Inl e \<Rightarrow> Inl e
                         | Inr ivs \<Rightarrow>
                             (case filterOthers i (elems cl) of
                                Inl e \<Rightarrow> Inl e
                              | Inr cs \<Rightarrow>
                                  Inr (notify ''Client deleted''
                                        (u\<lparr>app := Obj (put (put (own_props (app u))
                                                   ''clients'' (Arr cs [])) ''invoices'' (Arr ivs []))\<rparr>)))))))"

text \<open>
  \<open>n.toFixed(2)\<close>: below \<open>10\<^sup>21\<close> the nearest multiple of 1/100 (the larger one on a tie),
  printed with two decimals; from \<open>10\<^sup>21\<close> on, the text that \<open>String(n)\<close> gives.
\<close>

definition fixedPos :: "rat \<Rightarrow> string" where
  "fixedPos q =
     (if 10 ^ 21 \<le> q then posToString (shortestDecimal q)
      else (let ds = int_digits \<lfloor>q * 100 + 1 / 2\<rfloor>;
                m = replicate (3 - length ds) CHR ''0'' @ ds
            in take (length m - 2) m @ ''.'' @ drop (length m - 2) m))"

fun toFixed2 :: "jsnum \<Rightarrow> string" where
  "toFixed2 (Fin q) = (if q < 0 then ''-'' @ fixedPos (- q) else fixedPos q)"
| "toFixed2 n = numToString n"

text \<open>
  \<open>clientsById\<close> (lines 189-193): a \<open>Map\<close> filled from \<open>app.clients\<close> in order, so the last
  client with a given id is the one found. Keys are compared by SameValueZero.
\<close>

fun sameValueZero :: "jsval \<Rightarrow> jsval \<Rightarrow> bool" where
  "sameValueZero (Num a) (Num b) = (a = b)"
| "sameValueZero a b = strict_eq a b"

definition clientsById_get :: "jsval list \<Rightarrow> jsval \<Rightarrow> jsval option" where
  "clientsById_get cs k = find (\<lambda>c. sameValueZero (getp c ''id'') k) (rev cs)"

text \<open>\<open>exportCSV\<close> (lines 260-313).\<close>

definition header :: "string list" where
  "header = [''invoiceNumber'', ''issueDate'', ''dueDate'', ''client'', ''status'',
             ''net'', ''vatRate'', ''vat'', ''gross'', ''currency'']"

definition needs_quotes :: "string \<Rightarrow> bool" where
  "needs_quotes s = (\<exists>c \<in> set s. c = CHR 0x22 \<or> c = CHR '','' \<or> c = CHR 0x0A)"

definition double_quotes :: "string \<Rightarrow> string" where
  "double_quotes s = concat (map (\<lambda>c. if c = CHR 0x22 then [CHR 0x22, CHR 0x22] else [c]) s)"

definition quoted :: "string \<Rightarrow> string" where
  "quoted s = (if needs_quotes s then [CHR 0x22] @ double_quotes s @ [CHR 0x22] else s)"

definition esc :: "jsval \<Rightarrow> error + string" where
  "esc v = (case ToString (js_coalesce v (Str [])) of Inl e \<Rightarrow> Inl e | Inr s \<Rightarrow> Inr (quoted s))"

text \<open>
  The sort of line 276. The comparator of two invoices \<open>a\<close>, \<open>b\<close> is
  \<open>String(b.issueDate || "").localeCompare(String(a.issueDate || ""))\<close>, and \<open>a\<close> stays
  before \<open>b\<close> when it is not positive. \<open>Array.prototype.sort\<close> is stable; for a comparator
  that orders the texts consistently its result is the one of stable insertion. An array
  of fewer than two elements is returned without a call of the comparator.
\<close>

definition sortKey :: "jsval \<Rightarrow> error + (string \<times> jsval)" where
  "sortKey x =
     (case get x ''issueDate'' of
        Inl e \<Rightarrow> Inl e
      | Inr v \<Rightarrow> (case ToString (js_or v (Str [])) of Inl e \<Rightarrow> Inl e | Inr s \<Rightarrow> Inr (s, x)))"

fun sortKeys :: "jsval list \<Rightarrow> error + (string \<times> jsval) list" where
  "sortKeys [] = Inr []"
| "sortKeys (x # xs) =
     (case sortKey x of
        Inl e \<Rightarrow> Inl e
      | Inr k \<Rightarrow> (case sortKeys xs of Inl e \<Rightarrow> Inl e | Inr ks \<Rightarrow> Inr (k # ks)))"

fun insertBy :: "(string \<Rightarrow> string \<Rightarrow> int) \<Rightarrow> string \<times> jsval \<Rightarrow> (string \<times> jsval) list \<Rightarrow> (string \<times> jsval) list" where
  "insertBy cmp x [] = [x]"
| "insertBy cmp x (y # ys) =
     (if cmp (fst y) (fst x) \<le> 0 then x # y # ys else y # insertBy cmp x ys)"

definition sortByIssueDate :: "env \<Rightarrow> jsval list \<Rightarrow> error + jsval list" where
  "sortByIssueDate E xs =
     (if length xs < 2 then Inr xs
      else (case sortKeys xs of
              Inl e \<Rightarrow> Inl e
            | Inr ks \<Rightarrow> Inr (map snd (foldr (insertBy (localeCompare E)) ks []))))"

text \<open>The cells of one row, in the order of \<open>header\<close> (lines 277-293).\<close>

definition cells :: "jsval list \<Rightarrow> jsval \<Rightarrow> jsval \<Rightarrow> error + jsval list" where
  "cells cs currency iv =
     (case get iv ''clientId'' of
        Inl e \<Rightarrow> Inl e
      | Inr cid \<Rightarrow>
          (case calcTotals iv of
             Inl e \<Rightarrow> Inl e
           | Inr t \<Rightarrow>
               Inr [js_or (getp iv ''invoiceNumber'') (Str []),
                    js_or (getp iv ''issueDate'') (Str []),
                    js_or (getp iv ''dueDate'') (Str []),
                    js_or (case clientsById_get cs cid of None \<Rightarrow> Undefined | Some c \<Rightarrow> getp c ''name'') (Str []),
                    js_or (getp iv ''status'') (Str []),
                    Str (toFixed2 (net t)),
                    Str (numToString (vatRate t)),
                    Str (toFixed2 (vat t)),
                    Str (toFixed2 (gross t)),
                    currency]))"

fun escAll :: "jsval list \<Rightarrow> error + string list" where
  "escAll [] = Inr []"
| "escAll (v # vs) =
     (case esc v of
        Inl e \<Rightarrow> Inl e
      | Inr s \<Rightarrow> (case escAll vs of Inl e \<Rightarrow> Inl e | Inr ss \<Rightarrow> Inr (s # ss)))"

definition csvFields :: "jsval list \<Rightarrow> jsval \<Rightarrow> jsval \<Rightarrow> error + string list" where
  "csvFields cs currency iv =
     (case cells cs currency iv of Inl e \<Rightarrow> Inl e | Inr vs \<Rightarrow> escAll vs)"

fun csvRows :: "jsval list \<Rightarrow> jsval \<Rightarrow> jsval list \<Rightarrow> error + string list list" where
  "csvRows cs currency [] = Inr []"
| "csvRows cs currency (iv # ivs) =
     (case csvFields cs currency iv of
        Inl e \<Rightarrow> Inl e
      | Inr r \<Rightarrow> (case csvRows cs currency ivs of Inl e \<Rightarrow> Inl e | Inr rs \<Rightarrow> Inr (r # rs)))"

text \<open>
  What the rows are computed from: the clients for \<open>clientsById\<close> (none of them \<open>null\<close>,
  since the map reads their \<open>id\<close>), the currency of line 176, and the sorted invoices.
\<close>

definition csvClients :: "jsval \<Rightarrow> error + jsval list" where
  "csvClients a =
     (case get a ''clients'' of
        Inl e \<Rightarrow> Inl e
      | Inr cl \<Rightarrow>
          (case iterate cl of
             Inl e \<Rightarrow> Inl e
           | Inr cs \<Rightarrow> if list_ex nullish cs then Inl TypeError else Inr cs))"

definition csvCurrency :: "jsval \<Rightarrow> error + jsval" where
  "csvCurrency a =
     (case get a ''settings'' of
        Inl e \<Rightarrow> Inl e
      | Inr st \<Rightarrow> (case get st ''currency'' of Inl e \<Rightarrow> Inl e | Inr c \<Rightarrow> Inr (js_or c (Str ''EUR''))))"

definition csvSorted :: "env \<Rightarrow> jsval \<Rightarrow> error + jsval list" where
  "csvSorted E a =
     (case get a ''invoices'' of
        Inl e \<Rightarrow> Inl e
      | Inr ivs \<Rightarrow> if Array_isArray ivs then sortByIssueDate E (elems ivs) else Inl TypeError)"

definition exportCSV_rows :: "env \<Rightarrow> jsval \<Rightarrow> error + string list list" where
  "exportCSV_rows E a =
     (case csvClients a of
        Inl e \<Rightarrow> Inl e
      | Inr cs \<Rightarrow>
          (case csvCurrency a of
             Inl e \<Rightarrow> Inl e
           | Inr cur \<Rightarrow>
               (case csvSorted E a of
                  Inl e \<Rightarrow> Inl e
                | Inr ivs \<Rightarrow> csvRows cs cur ivs)))"

text \<open>The text handed to the download, and the notice.\<close>

definition exportCSV :: "env \<Rightarrow> ui \<Rightarrow> error + (string \<times> ui)" where
  "exportCSV E u =
     (case exportCSV_rows E (app u) of
        Inl e \<Rightarrow> Inl e
      | Inr rows \<Rightarrow>
          Inr (joinWith [CHR 0x0A] (joinWith '','' header # map (joinWith '','') rows),
               notify ''CSV exported'' u))"

section \<open>A runtime for the concrete evaluations\<close>

text \<open>
  Identifiers \<open>id_0\<close>, \<open>id_1\<close>, ...; the clock at 15 January 2024; a calendar that knows
  this one day; texts compared byte by byte.
\<close>

fun str_cmp :: "string \<Rightarrow> string \<Rightarrow> int" where
  "str_cmp [] [] = 0"
| "str_cmp [] (y # ys) = - 1"
| "str_cmp (x # xs) [] = 1"
| "str_cmp (x # xs) (y # ys) =
     (if (of_char x :: int) < of_char y then - 1
      else if (of_char y :: int) < of_char x then 1
      else str_cmp xs ys)"

definition demo_env :: env where
  "demo_env =
     \<lparr>uidOf = (\<lambda>n. ''id_'' @ nat_digits n),
      nowISO = ''2024-01-15T10:30:00.000Z'',
      dateShift = (\<lambda>s n. if s = ''2024-01-15T00:00:00'' \<and> n = Fin 14
                           then Some ''2024-01-29T00:00:00.000Z'' else None),
      localeCompare = str_cmp\<rparr>"

definition demo_ui :: "jsval \<Rightarrow> ui" where
  "demo_ui a = \<lparr>app = a, activeInvoiceId = Null, invoiceModalOpen = False, toasts = [], gen = 0\<rparr>"

text \<open>
  What every runtime guarantees: identifiers and ISO date texts are not empty.
\<close>

definition env_ok :: "env \<Rightarrow> bool" where
  "env_ok E =
     ((\<forall>n. uidOf E n \<noteq> []) \<and> nowISO E \<noteq> [] \<and> (\<forall>s n t. dateShift E s n = Some t \<longrightarrow> t \<noteq> []))"

section \<open>Notions used by the statements\<close>

text \<open>A non-null object: the values for which line 116 keeps \<open>raw\<close>.\<close>

fun is_obj :: "jsval \<Rightarrow> bool" where
  "is_obj (Obj ps) = True"
| "is_obj (Arr xs ps) = True"
| "is_obj v = False"

text \<open>The invoice counter of a state, and the invariant \<open>nextInvoiceNumber \<ge> 1\<close>.\<close>

definition counter :: "jsval \<Rightarrow> jsval" where
  "counter a = getp (getp a ''settings'') ''nextInvoiceNumber''"

definition counter_ok :: "jsval \<Rightarrow> bool" where
  "counter_ok a = (case counter a of Num (Fin q) \<Rightarrow> 1 \<le> q | _ \<Rightarrow> False)"









definition rounding_invoice :: jsval where
  "rounding_invoice =
     Obj [(''vatRate'', Num (Fin (15 / 2))),
          (''items'', Arr [Obj [(''qty'', Num (Fin 3)), (''unitPrice'', Num (Fin 1))]] [])]"


text \<open>A document with a negative counter, and the state it normalizes to.\<close>

definition negative_counter_doc :: jsval where
  "negative_counter_doc = Obj [(''settings'', Obj [(''nextInvoiceNumber'', Num (Fin (- 5)))])]"

definition negative_counter_state :: jsval where
  "negative_counter_state =
     Obj [(''settings'',
           Obj [(''currency'', Str ''EUR''), (''defaultVatRate'', Num (Fin 19)),
                (''invoicePrefix'', Str ''INV''), (''nextInvoiceNumber'', Num (Fin (- 5))),
                (''defaultDueDays'', Num (Fin 14))]),
          (''profile'', Obj base_profile), (''clients'', Arr [] []), (''invoices'', Arr [] [])]"

text \<open>
  Shapes of well-formed states: an invoice that is a plain object; a client that is not
  \<open>null\<close> or \<open>undefined\<close> and whose name is a string or falsy.
\<close>

fun is_plain :: "jsval \<Rightarrow> bool" where
  "is_plain (Obj ps) = True"
| "is_plain v = False"

definition client_ok :: "jsval \<Rightarrow> bool" where
  "client_ok c = (\<not> nullish c \<and> (\<not> truthy (getp c ''name'') \<or> typeof_string (getp c ''name'')))"

text \<open>A state with two clients and three invoices, for the concrete evaluations.\<close>

definition demo_invoice :: "string \<Rightarrow> string \<Rightarrow> string \<Rightarrow> jsval" where
  "demo_invoice i c d =
     Obj [(''id'', Str i), (''invoiceNumber'', Str (''INV-'' @ i)), (''issueDate'', Str d),
          (''dueDate'', Str d), (''clientId'', Str c), (''status'', Str ''Sent''),
          (''vatRate'', Num (Fin 19)),
          (''items'', Arr [Obj [(''id'', Str (i @ ''-1'')), (''desc'', Str ''work''),
                               (''qty'', Num (Fin 2)), (''unit'', Str ''h''),
                               (''unitPrice'', Num (Fin 50))]] []),
          (''notes'', Str [])]"

definition demo_client :: "string \<Rightarrow> string \<Rightarrow> jsval" where
  "demo_client i n =
     Obj [(''id'', Str i), (''name'', Str n), (''address'', Str []), (''email'', Str []),
          (''phone'', Str []), (''contact'', Str []), (''notes'', Str [])]"

definition demo_invoices :: "jsval list" where
  "demo_invoices =
     [demo_invoice ''a'' ''c1'' ''2024-01-10'',
      demo_invoice ''b'' ''c2'' ''2024-03-05'',
      demo_invoice ''c'' ''c1'' ''2024-02-20'']"

definition demo_clients :: "jsval list" where
  "demo_clients = [demo_client ''c1'' ''Acme, Inc.'', demo_client ''c2'' ''Bolt'']"

definition demo_props :: props where
  "demo_props =
     [(''settings'', Obj base_settings), (''profile'', Obj base_profile),
      (''clients'', Arr demo_clients []),
      (''invoices'', Arr demo_invoices [])]"

definition demo_state :: jsval where
  "demo_state = Obj demo_props"



text \<open>
  For the statement about the CSV export: a text with exactly two decimals (digits, a
  point, two digits, after an optional minus sign); the text that the comparator of line
  276 compares for an invoice; a comparator that orders texts consistently.
\<close>

definition two_decimals :: "string \<Rightarrow> bool" where
  "two_decimals s =
     (let t = (if s \<noteq> [] \<and> hd s = CHR ''-'' then tl s else s); n = length t
      in 4 \<le> n \<and> list_all is_digit (take (n - 3) t) \<and> t ! (n - 3) = CHR ''.''
         \<and> list_all is_digit (drop (n - 2) t))"

definition issueKey :: "jsval \<Rightarrow> string" where
  "issueKey x = (case sortKey x of Inl e \<Rightarrow> [] | Inr (s, y) \<Rightarrow> s)"

definition consistent_cmp :: "(string \<Rightarrow> string \<Rightarrow> int) \<Rightarrow> bool" where
  "consistent_cmp cmp =
     ((\<forall>a b. cmp a b \<le> 0 \<or> cmp b a \<le> 0)
      \<and> (\<forall>a b c. cmp a b \<le> 0 \<longrightarrow> cmp b c \<le> 0 \<longrightarrow> cmp a c \<le> 0))"

text \<open>A state with one invoice of \<open>1e21\<close> units at price 1, tax rate 0.\<close>

definition huge_state :: jsval where
  "huge_state =
     Obj [(''settings'', Obj base_settings), (''profile'', Obj base_profile),
          (''clients'', Arr [] []),
          (''invoices'',
           Arr [Obj [(''id'', Str ''h''), (''invoiceNumber'', Str ''INV-0001''),
                     (''issueDate'', Str ''2024-01-15''), (''dueDate'', Str ''2024-01-29''),
                     (''clientId'', Str []), (''status'', Str ''Draft''),
                     (''vatRate'', Num (Fin 0)),
                     (''items'', Arr [Obj [(''id'', Str ''h-1''), (''desc'', Str []),
                                          (''qty'', Num (Fin (10 ^ 21))), (''unit'', Str []),
                                          (''unitPrice'', Num (Fin 1))]] []),
                     (''notes'', Str [])]] [])]"

text \<open>The named properties of an object or array.\<close>

fun named_props :: "jsval \<Rightarrow> props" where
  "named_props (Obj ps) = ps"
| "named_props (Arr xs ps) = ps"
| "named_props v = []"

text \<open>
  \<open>normalize(normalize(x))\<close>: the second call runs on what the first returned, with the
  generator where the first call left it; an exception of the first call propagates.
\<close>

definition normalizeTwice :: "env \<Rightarrow> nat \<Rightarrow> jsval \<Rightarrow> error + (jsval \<times> nat)" where
  "normalizeTwice E g raw =
     (case normalizeData E g raw of
        Inl e \<Rightarrow> Inl e
      | Inr (d, g1) \<Rightarrow> normalizeData E g1 d)"

text \<open>The document \<open>{invoices: [{}]}\<close> and the state it normalizes to.\<close>

definition blank_doc :: jsval where
  "blank_doc = Obj [(''invoices'', Arr [Obj []] [])]"

definition blank_state :: "env \<Rightarrow> nat \<Rightarrow> jsval" where
  "blank_state E g =
     Obj [(''invoices'',
           Arr [Obj [(''id'', Str (uidOf E g)),
                     (''invoiceNumber'', Str []),
                     (''issueDate'', todayISO E),
                     (''dueDate'', addDaysISO E (todayISO E) (Num (Fin 14))),
                     (''clientId'', Str []),
                     (''status'', Str ''Draft''),
                     (''vatRate'', Num (Fin 0)),
                     (''items'', Arr [blank_item (Str (uidOf E (Suc g)))] []),
                     (''notes'', Str [])]] []),
          (''settings'', Obj base_settings),
          (''profile'', Obj base_profile),
          (''clients'', Arr [] [])]"

section \<open>Rounding to doubles\<close>

lemma pow2_powi: "pow2 e = 2 powi e"
  by (simp add: pow2_def power_int_def power_one_over inverse_eq_divide)

lemma pow2_pos: "0 < pow2 e"
  by (simp add: pow2_powi)

lemma pow2_mono: "a \<le> b \<Longrightarrow> pow2 a \<le> pow2 b"
  by (simp add: pow2_powi power_int_increasing)

lemma pow2_less_exp: "pow2 a < pow2 b \<Longrightarrow> a < b"
  using pow2_mono [of b a] by (cases "a < b") simp_all

lemma pow2_add: "pow2 (a + b) = pow2 a * pow2 b"
  by (simp add: pow2_powi power_int_add)

lemma pow2_diff: "pow2 (a - b) = pow2 a / pow2 b"
  by (simp add: pow2_powi power_int_diff)

lemma bitlen_pow2:
  assumes "0 < a"
  shows "pow2 (bitlen a - 1) \<le> of_int a" and "of_int a < pow2 (bitlen a)"
proof -
  from assms have b: "2 ^ nat (bitlen a - 1) \<le> a" "a < 2 ^ nat (bitlen a)"
    using bitlen_bounds [of a] by simp_all
  have pos: "1 \<le> bitlen a"
  proof (rule ccontr)
    assume "\<not> 1 \<le> bitlen a"
    then have "bitlen a = 0"
      using bitlen_nonneg [of a] by simp
    with b(2) assms show False
      by simp
  qed
  from b(1) have "(of_int (2 ^ nat (bitlen a - 1)) :: rat) \<le> of_int a"
    by (simp only: of_int_le_iff)
  with pos show "pow2 (bitlen a - 1) \<le> of_int a"
    by (simp add: pow2_def)
  from b(2) have "(of_int a :: rat) < of_int (2 ^ nat (bitlen a))"
    by (simp only: of_int_less_iff)
  with pos show "of_int a < pow2 (bitlen a)"
    by (simp add: pow2_def)
qed

lemma lg2_bounds:
  assumes "0 < x"
  shows "pow2 (lg2 x) \<le> x \<and> x < pow2 (lg2 x + 1)"
proof -
  obtain a b where q: "quotient_of x = (a, b)"
    by (cases "quotient_of x")
  then have b: "0 < b" and x: "x = of_int a / of_int b"
    using quotient_of_denom_pos quotient_of_div by blast+
  with assms have a: "0 < a"
    by (simp add: zero_less_divide_iff)
  let ?d = "bitlen a - bitlen b"
  have "x < pow2 (bitlen a) / pow2 (bitlen b - 1)"
    unfolding x using bitlen_pow2 [OF a] bitlen_pow2 [OF b] a b pow2_pos
    by (intro frac_less) simp_all
  then have up: "x < pow2 (?d + 1)"
    by (simp add: pow2_diff [symmetric] algebra_simps)
  have "pow2 (bitlen a - 1) / pow2 (bitlen b) < x"
    unfolding x using bitlen_pow2 [OF a] bitlen_pow2 [OF b] a b pow2_pos
    by (intro frac_less2) simp_all
  then have lo: "pow2 (?d - 1) < x"
    by (simp add: pow2_diff [symmetric] algebra_simps)
  show ?thesis
    using up lo q by (simp add: lg2_def Let_def)
qed

lemma lg2_unique:
  assumes "0 < x" and "pow2 k \<le> x" and "x < pow2 (k + 1)"
  shows "lg2 x = k"
proof -
  from lg2_bounds [OF assms(1)] assms(2,3)
  have "pow2 (lg2 x) < pow2 (k + 1)" and "pow2 k < pow2 (lg2 x + 1)"
    by simp_all
  then have "lg2 x < k + 1" and "k < lg2 x + 1"
    using pow2_less_exp by blast+
  then show ?thesis
    by simp
qed

lemma rhe_near: "\<bar>of_int (rhe z) - z\<bar> \<le> 1 / 2"
proof -
  have "of_int \<lfloor>z\<rfloor> \<le> z" and "z < of_int \<lfloor>z\<rfloor> + 1"
    by linarith+
  then show ?thesis
    by (auto simp: rhe_def Let_def)
qed

lemma rhe_of_int: "rhe (of_int n) = n"
  by (simp add: rhe_def)

lemma rhe_le: assumes "z < of_int K + 1 / 2" shows "rhe z \<le> K"
proof -
  from rhe_near [of z] assms have "(of_int (rhe z) :: rat) < of_int K + 1"
    by linarith
  then have "(of_int (rhe z) :: rat) < of_int (K + 1)"
    by simp
  then have "rhe z < K + 1"
    by (simp only: of_int_less_iff)
  then show ?thesis
    by simp
qed

lemma rhe_ge: assumes "of_int K \<le> z" shows "K \<le> rhe z"
proof -
  from rhe_near [of z] assms have "(of_int K :: rat) - 1 < of_int (rhe z)"
    by linarith
  then have "(of_int (K - 1) :: rat) < of_int (rhe z)"
    by simp
  then have "K - 1 < rhe z"
    by (simp only: of_int_less_iff)
  then show ?thesis
    by simp
qed

lemma rhe_le_int: assumes "z \<le> of_int K" shows "rhe z \<le> K"
proof -
  from assms have "z < of_int K + 1 / 2"
    by linarith
  then show ?thesis
    by (rule rhe_le)
qed

lemma pow2_52: "pow2 e = 2 ^ 52 * pow2 (e - 52)"
proof -
  have "pow2 e = pow2 (52 + (e - 52))"
    by (rule arg_cong [where f = pow2]) simp
  also have "\<dots> = pow2 52 * pow2 (e - 52)"
    by (rule pow2_add)
  finally show ?thesis
    by (simp add: pow2_def)
qed

lemma pow2_53: "pow2 (e + 1) = 2 ^ 53 * pow2 (e - 52)"
proof -
  have "pow2 (e + 1) = pow2 (53 + (e - 52))"
    by (rule arg_cong [where f = pow2]) simp
  also have "\<dots> = pow2 53 * pow2 (e - 52)"
    by (rule pow2_add)
  finally show ?thesis
    by (simp add: pow2_def)
qed

lemma pow2_Suc: "pow2 (e + 1) = 2 * pow2 e"
proof -
  have "pow2 (e + 1) = pow2 e * pow2 1"
    by (rule pow2_add)
  also have "pow2 1 = 2"
    by (simp add: pow2_def)
  finally show ?thesis
    by simp
qed

lemma lg2_less: "0 < x \<Longrightarrow> x < pow2 k \<Longrightarrow> lg2 x < k"
  using lg2_bounds [of x] pow2_less_exp [of "lg2 x" k] by simp

lemma lg2_ge: "0 < x \<Longrightarrow> pow2 k \<le> x \<Longrightarrow> k \<le> lg2 x"
  using lg2_bounds [of x] pow2_less_exp [of k "lg2 x + 1"] by simp

lemma grid_normal:
  assumes x: "0 < x" and e: "- 1022 \<le> lg2 x"
  shows "grid x = of_int (rhe (x / pow2 (lg2 x - 52))) * pow2 (lg2 x - 52)"
    and "2 ^ 52 \<le> rhe (x / pow2 (lg2 x - 52))"
    and "rhe (x / pow2 (lg2 x - 52)) \<le> 2 ^ 53"
proof -
  let ?u = "pow2 (lg2 x - 52)"
  have u: "0 < ?u"
    by (rule pow2_pos)
  from e show "grid x = of_int (rhe (x / ?u)) * ?u"
    by (simp add: grid_def max_def Let_def)
  from lg2_bounds [OF x] have "2 ^ 52 * ?u \<le> x" and "x < 2 ^ 53 * ?u"
    using pow2_52 [of "lg2 x"] pow2_53 [of "lg2 x"] by simp_all
  with u have lo: "2 ^ 52 \<le> x / ?u" and hi: "x / ?u < 2 ^ 53"
    by (simp_all add: pos_le_divide_eq pos_divide_less_eq)
  from lo have "of_int (2 ^ 52) \<le> x / ?u"
    by simp
  then show "2 ^ 52 \<le> rhe (x / ?u)"
    by (rule rhe_ge)
  from hi have "x / ?u \<le> of_int (2 ^ 53)"
    by simp
  then show "rhe (x / ?u) \<le> 2 ^ 53"
    by (rule rhe_le_int)
qed

lemma grid_subnormal:
  assumes x: "0 < x" and e: "lg2 x < - 1022"
  shows "grid x = of_int (rhe (x / pow2 (- 1022 - 52))) * pow2 (- 1022 - 52)"
    and "0 \<le> rhe (x / pow2 (- 1022 - 52))"
    and "rhe (x / pow2 (- 1022 - 52)) \<le> 2 ^ 52"
proof -
  let ?u = "pow2 (- 1022 - 52)"
  have u: "0 < ?u"
    by (rule pow2_pos)
  from e show "grid x = of_int (rhe (x / ?u)) * ?u"
    by (simp add: grid_def max_def Let_def)
  from e have "pow2 (lg2 x + 1) \<le> pow2 (- 1022)"
    by (intro pow2_mono) simp
  with lg2_bounds [OF x] have "x < 2 ^ 52 * ?u"
    using pow2_52 [of "- 1022"] by simp
  with u have hi: "x / ?u < 2 ^ 52"
    by (simp add: pos_divide_less_eq)
  from x u have "of_int 0 \<le> x / ?u"
    by simp
  then show "0 \<le> rhe (x / ?u)"
    by (rule rhe_ge)
  from hi have "x / ?u \<le> of_int (2 ^ 52)"
    by simp
  then show "rhe (x / ?u) \<le> 2 ^ 52"
    by (rule rhe_le_int)
qed

lemma grid_nonneg: "0 < x \<Longrightarrow> 0 \<le> grid x"
  using grid_normal [of x] grid_subnormal [of x] pow2_pos [of "lg2 x - 52"] pow2_pos [of "- 1022 - 52"]
  by (cases "- 1022 \<le> lg2 x") simp_all

lemma grid_ge:
  assumes x: "0 < x" and e: "- 1022 \<le> lg2 x"
  shows "pow2 (lg2 x) \<le> grid x"
proof -
  have "2 ^ 52 * pow2 (lg2 x - 52) \<le> of_int (rhe (x / pow2 (lg2 x - 52))) * pow2 (lg2 x - 52)"
  proof (rule mult_right_mono)
    have "(of_int (2 ^ 52) :: rat) \<le> of_int (rhe (x / pow2 (lg2 x - 52)))"
      using grid_normal(2) [OF x e] by (simp only: of_int_le_iff)
    then show "(2 ^ 52 :: rat) \<le> of_int (rhe (x / pow2 (lg2 x - 52)))"
      by simp
    show "0 \<le> pow2 (lg2 x - 52)"
      using pow2_pos [of "lg2 x - 52"] by simp
  qed
  then show ?thesis
    using grid_normal(1) [OF x e] pow2_52 [of "lg2 x"] by simp
qed

lemma grid_le:
  assumes x: "0 < x"
  shows "grid x \<le> pow2 (max (lg2 x) (- 1022) + 1)"
proof (cases "- 1022 \<le> lg2 x")
  case True
  have "of_int (rhe (x / pow2 (lg2 x - 52))) * pow2 (lg2 x - 52) \<le> 2 ^ 53 * pow2 (lg2 x - 52)"
  proof (rule mult_right_mono)
    have "(of_int (rhe (x / pow2 (lg2 x - 52))) :: rat) \<le> of_int (2 ^ 53)"
      using grid_normal(3) [OF x True] by (simp only: of_int_le_iff)
    then show "(of_int (rhe (x / pow2 (lg2 x - 52))) :: rat) \<le> 2 ^ 53"
      by simp
    show "0 \<le> pow2 (lg2 x - 52)"
      using pow2_pos [of "lg2 x - 52"] by simp
  qed
  then show ?thesis
    using grid_normal(1) [OF x True] pow2_53 [of "lg2 x"] True by (simp add: max_def)
next
  case False
  then have e: "lg2 x < - 1022"
    by simp
  have "of_int (rhe (x / pow2 (- 1022 - 52))) * pow2 (- 1022 - 52) \<le> 2 ^ 52 * pow2 (- 1022 - 52)"
  proof (rule mult_right_mono)
    have "(of_int (rhe (x / pow2 (- 1022 - 52))) :: rat) \<le> of_int (2 ^ 52)"
      using grid_subnormal(3) [OF x e] by (simp only: of_int_le_iff)
    then show "(of_int (rhe (x / pow2 (- 1022 - 52))) :: rat) \<le> 2 ^ 52"
      by simp
    show "0 \<le> pow2 (- 1022 - 52)"
      using pow2_pos [of "- 1022 - 52"] by simp
  qed
  then have "grid x \<le> pow2 (- 1022)"
    using grid_subnormal(1) [OF x e] pow2_52 [of "- 1022"] by simp
  also have "\<dots> \<le> pow2 (- 1022 + 1)"
    by (intro pow2_mono) simp
  finally show ?thesis
    using e by (simp add: max_def)
qed

lemma grid_fix:
  assumes M: "0 < M" "M \<le> 2 ^ 53" and c: "- 1022 \<le> c" and n: "2 ^ 52 \<le> M \<or> c = - 1022"
  shows "grid (of_int M * pow2 (c - 52)) = of_int M * pow2 (c - 52)"
proof -
  let ?u = "pow2 (c - 52)"
  let ?y = "of_int M * ?u"
  have u: "0 < ?u"
    by (rule pow2_pos)
  with M have y: "0 < ?y"
    by simp
  have scale: "\<And>A B :: int. A \<le> B \<Longrightarrow> of_int A * ?u \<le> of_int B * ?u"
    using u by (simp add: mult_right_mono)
  have scale': "\<And>A B :: int. A < B \<Longrightarrow> of_int A * ?u < of_int B * ?u"
    using u by (simp add: mult_strict_right_mono)
  consider (normal) "2 ^ 52 \<le> M" "M < 2 ^ 53" | (carry) "M = 2 ^ 53" | (sub) "M < 2 ^ 52" "c = - 1022"
    using M n by linarith
  then show ?thesis
  proof cases
    case normal
    from scale [OF normal(1)] scale' [OF normal(2)] have "pow2 c \<le> ?y" and "?y < pow2 (c + 1)"
      using pow2_52 [of c] pow2_53 [of c] by simp_all
    with y have "lg2 ?y = c"
      by (intro lg2_unique)
    with c u show ?thesis
      by (simp add: grid_def max_def Let_def rhe_of_int)
  next
    case carry
    then have eq: "?y = pow2 (c + 1)"
      using pow2_53 [of c] by simp
    have "pow2 (c + 1) < pow2 (c + 1 + 1)"
      using pow2_Suc [of "c + 1"] pow2_pos [of "c + 1"] by simp
    with eq y have l: "lg2 ?y = c + 1"
      by (intro lg2_unique) simp_all
    have "pow2 (c + 1) / pow2 (c + 1 - 52) = of_int (2 ^ 52)"
      using pow2_52 [of "c + 1"] pow2_pos [of "c + 1 - 52"] by simp
    then have "rhe (pow2 (c + 1) / pow2 (c + 1 - 52)) = 2 ^ 52"
      by (simp only: rhe_of_int)
    with c l eq show ?thesis
      using pow2_52 [of "c + 1"] by (simp add: grid_def max_def Let_def)
  next
    case sub
    from scale' [OF sub(1)] have "?y < pow2 c"
      using pow2_52 [of c] by simp
    with y have "lg2 ?y < c"
      by (rule lg2_less)
    with sub(2) u show ?thesis
      by (simp add: grid_def max_def Let_def rhe_of_int)
  qed
qed

lemma grid_idem:
  assumes x: "0 < x" and g: "0 < grid x"
  shows "grid (grid x) = grid x"
proof (cases "- 1022 \<le> lg2 x")
  case True
  let ?M = "rhe (x / pow2 (lg2 x - 52))"
  from grid_normal [OF x True] have "grid (of_int ?M * pow2 (lg2 x - 52)) = of_int ?M * pow2 (lg2 x - 52)"
    using True by (intro grid_fix) simp_all
  then show ?thesis
    using grid_normal(1) [OF x True] by simp
next
  case False
  then have e: "lg2 x < - 1022"
    by simp
  let ?M = "rhe (x / pow2 (- 1022 - 52))"
  from g have "0 < ?M"
    using grid_subnormal(1) [OF x e] pow2_pos [of "- 1022 - 52"] by (simp add: zero_less_mult_iff)
  with grid_subnormal [OF x e] have "grid (of_int ?M * pow2 (- 1022 - 52)) = of_int ?M * pow2 (- 1022 - 52)"
    by (intro grid_fix) simp_all
  then show ?thesis
    using grid_subnormal(1) [OF x e] by simp
qed

lemma lg2_0: "lg2 0 = - 2"
  by code_simp

lemma rnd_0: "rnd 0 = Fin 0"
  by (simp add: rnd_def)

lemma rnd_pos: "0 < x \<Longrightarrow> rnd x = (if 1024 \<le> lg2 (grid x) then PosInf else Fin (grid x))"
  by (simp add: rnd_def Let_def)

lemma rnd_neg: "x < 0 \<Longrightarrow> rnd x = (if 1024 \<le> lg2 (grid (- x)) then NegInf else Fin (- grid (- x)))"
  by (simp add: rnd_def Let_def)

lemma rnd_grid:
  assumes x: "0 < x" and l: "lg2 (grid x) < 1024"
  shows "rnd (grid x) = Fin (grid x)"
proof (cases "grid x = 0")
  case True
  then show ?thesis
    by (simp add: rnd_0)
next
  case False
  with grid_nonneg [OF x] have g: "0 < grid x"
    by simp
  with l show ?thesis
    by (simp add: rnd_pos grid_idem [OF x g])
qed

lemma rnd_idem:
  assumes "rnd x = Fin y"
  shows "rnd y = Fin y"
proof -
  consider "x = 0" | "0 < x" | "x < 0"
    by linarith
  then show ?thesis
  proof cases
    case 1
    with assms show ?thesis
      by (simp add: rnd_def)
  next
    case 2
    with assms have "y = grid x" and "lg2 (grid x) < 1024"
      by (simp_all add: rnd_pos split: if_splits)
    with rnd_grid [OF 2] show ?thesis
      by simp
  next
    case 3
    with assms have y: "y = - grid (- x)" and l: "lg2 (grid (- x)) < 1024"
      by (simp_all add: rnd_neg split: if_splits)
    from 3 have x: "0 < - x"
      by simp
    show ?thesis
    proof (cases "grid (- x) = 0")
      case True
      with y show ?thesis
        by (simp add: rnd_0)
    next
      case False
      with grid_nonneg [OF x] have g: "0 < grid (- x)"
        by simp
      with l y show ?thesis
        by (simp add: rnd_neg grid_idem [OF x g])
    qed
  qed
qed

lemma nearest_idem: "nearest n = Fin y \<Longrightarrow> rnd y = Fin y"
  using rnd_idem by (cases n) simp_all

lemma pow2_1024: "pow2 1024 = 2 ^ 53 * pow2 971" and pow2_971: "pow2 971 = 2 * pow2 970"
  and pow2_1024': "pow2 1024 = 2 * pow2 1023"
  using pow2_53 [of 1023] pow2_Suc [of 970] pow2_Suc [of 1023] by simp_all

lemma lg2_grid_less:
  assumes x: "0 < x" and g: "grid x < pow2 k" and k: "- 2 < k"
  shows "lg2 (grid x) < k"
proof (cases "grid x = 0")
  case True
  with k show ?thesis
    by (simp add: lg2_0)
next
  case False
  with grid_nonneg [OF x] have "0 < grid x"
    by simp
  then show ?thesis
    using g by (rule lg2_less)
qed

lemma rnd_finite:
  assumes x: "0 < x" and b: "x < pow2 1024 - pow2 970"
  shows "lg2 (grid x) < 1024"
proof -
  have "grid x < pow2 1024"
  proof (cases "lg2 x \<le> 1022")
    case True
    then have "pow2 (max (lg2 x) (- 1022) + 1) \<le> pow2 1023"
      by (intro pow2_mono) simp
    with grid_le [OF x] have "grid x \<le> pow2 1023"
      by simp
    then show ?thesis
      using pow2_1024' pow2_pos [of 1023] by simp
  next
    case False
    from b have "x < pow2 1024"
      using pow2_pos [of 970] by simp
    with x have "lg2 x < 1024"
      by (rule lg2_less)
    with False have e: "lg2 x = 1023"
      by simp
    let ?U = "pow2 971"
    have U: "0 < ?U"
      by (rule pow2_pos)
    from b have "x < (2 ^ 53 - 1 / 2) * ?U"
      using pow2_1024 pow2_971 by (simp add: algebra_simps)
    with U have "x / ?U < 2 ^ 53 - 1 / 2"
      by (simp add: pos_divide_less_eq)
    then have "x / ?U < of_int (2 ^ 53 - 1) + 1 / 2"
      by simp
    then have "rhe (x / ?U) \<le> 2 ^ 53 - 1"
      by (rule rhe_le)
    then have "(of_int (rhe (x / ?U)) :: rat) \<le> of_int (2 ^ 53 - 1)"
      by (simp only: of_int_le_iff)
    with U have "of_int (rhe (x / ?U)) * ?U \<le> of_int (2 ^ 53 - 1) * ?U"
      by (simp add: mult_right_mono)
    moreover have "grid x = of_int (rhe (x / ?U)) * ?U"
      using grid_normal(1) [OF x] e by simp
    moreover have "of_int (2 ^ 53 - 1) * ?U < pow2 1024"
      using pow2_1024 U by (simp add: algebra_simps)
    ultimately show ?thesis
      by simp
  qed
  with x show ?thesis
    by (intro lg2_grid_less) simp_all
qed

lemma double_bound:
  assumes y: "0 < y" and d: "rnd y = Fin y"
  shows "y \<le> pow2 1024 - pow2 971"
proof -
  from y d have g: "grid y = y" and l: "lg2 y < 1024"
    by (simp_all add: rnd_pos split: if_splits)
  show ?thesis
  proof (cases "lg2 y \<le> 1022")
    case True
    then have "pow2 (lg2 y + 1) \<le> pow2 1023"
      by (intro pow2_mono) simp
    with lg2_bounds [OF y] have "y \<le> pow2 1023"
      by simp
    moreover have "pow2 971 \<le> pow2 1023"
      by (intro pow2_mono) simp
    ultimately show ?thesis
      using pow2_1024' by simp
  next
    case False
    with l have e: "lg2 y = 1023"
      by simp
    let ?U = "pow2 971"
    let ?M = "rhe (y / ?U)"
    have U: "0 < ?U"
      by (rule pow2_pos)
    have gy: "y = of_int ?M * ?U"
      using grid_normal(1) [OF y] e g by simp
    from lg2_bounds [OF y] e have "y < pow2 1024"
      by simp
    with gy have "of_int ?M * ?U < of_int (2 ^ 53) * ?U"
      using pow2_1024 by simp
    with U have "(of_int ?M :: rat) < of_int (2 ^ 53)"
      by (simp only: mult_less_cancel_right_pos)
    then have "?M < 2 ^ 53"
      by (simp only: of_int_less_iff)
    then have "?M \<le> 2 ^ 53 - 1"
      by simp
    then have "(of_int ?M :: rat) \<le> of_int (2 ^ 53 - 1)"
      by (simp only: of_int_le_iff)
    with U have "of_int ?M * ?U \<le> of_int (2 ^ 53 - 1) * ?U"
      by (simp add: mult_right_mono)
    moreover have "of_int (2 ^ 53 - 1) * ?U = pow2 1024 - ?U"
      using pow2_1024 by (simp add: algebra_simps)
    ultimately show ?thesis
      using gy by simp
  qed
qed



lemma rnd_succ:
  assumes d: "rnd q = Fin q" and q: "1 \<le> q"
  shows "\<exists>z. rnd (q + 1) = Fin z \<and> 1 \<le> z"
proof -
  from q have pos: "0 < q" "0 < q + 1"
    by simp_all
  have p0: "pow2 0 = 1"
    by (simp add: pow2_def)
  have "pow2 1 = 2"
    by (simp add: pow2_def)
  moreover have "pow2 1 \<le> pow2 970"
    by (intro pow2_mono) simp
  ultimately have "2 \<le> pow2 970"
    by simp
  with double_bound [OF pos(1) d] have "q + 1 < pow2 1024 - pow2 970"
    using pow2_971 by simp
  with pos(2) have fin: "lg2 (grid (q + 1)) < 1024"
    by (rule rnd_finite)
  from q p0 have "pow2 0 \<le> q + 1"
    by simp
  with pos(2) have e: "0 \<le> lg2 (q + 1)"
    by (rule lg2_ge)
  then have "pow2 0 \<le> pow2 (lg2 (q + 1))"
    by (rule pow2_mono)
  moreover from e have "pow2 (lg2 (q + 1)) \<le> grid (q + 1)"
    by (intro grid_ge pos) simp
  ultimately have "1 \<le> grid (q + 1)"
    using p0 by simp
  with fin pos show ?thesis
    by (simp add: rnd_pos)
qed

section \<open>Totals\<close>

lemma finite_or_zero_Fin: "\<exists>q. finite_or_zero n = Fin q"
  by (cases n) (simp_all add: finite_or_zero_def)

lemma toNumber_finite: "toNumber v = Inr n \<Longrightarrow> \<exists>q. n = Fin q"
  using finite_or_zero_Fin
  by (cases v) (auto simp: js_coalesce_def split: sum.splits if_splits)

lemma finite_or_zero_double:
  "(\<And>q. n = Fin q \<Longrightarrow> rnd q = Fin q) \<Longrightarrow> \<exists>q. finite_or_zero n = Fin q \<and> rnd q = Fin q"
  by (cases n) (simp_all add: finite_or_zero_def rnd_0)

lemma radix_digits_double: "radix_digits r a s = Fin q \<Longrightarrow> rnd q = Fin q"
  by (induction s arbitrary: a) (auto dest: rnd_idem split: option.splits)

lemma signedDecimal_double: "signedDecimal s = Fin q \<Longrightarrow> rnd q = Fin q"
  by (auto simp: signedDecimal_def Let_def dest: rnd_idem split: if_splits option.splits)

lemma StringToNumber_double: "StringToNumber s = Fin q \<Longrightarrow> rnd q = Fin q"
  by (auto simp: StringToNumber_def Let_def rnd_0 dest: radix_digits_double signedDecimal_double
      split: if_splits)

lemma toNumber_double: "toNumber v = Inr n \<Longrightarrow> \<exists>q. n = Fin q \<and> rnd q = Fin q"
proof (cases v)
  case (Num m)
  assume "toNumber v = Inr n"
  with Num have "n = finite_or_zero (nearest m)"
    by simp
  then show ?thesis
    using finite_or_zero_double [of "nearest m"] nearest_idem [of m] by simp
next
  case Undefined
  assume "toNumber v = Inr n"
  with Undefined obtain s where "n = finite_or_zero (StringToNumber s)"
    by (auto simp: js_coalesce_def split: sum.splits)
  then show ?thesis
    using finite_or_zero_double [of "StringToNumber s"] StringToNumber_double [of s] by simp
next
  case Null
  assume "toNumber v = Inr n"
  with Null obtain s where "n = finite_or_zero (StringToNumber s)"
    by (auto simp: js_coalesce_def split: sum.splits)
  then show ?thesis
    using finite_or_zero_double [of "StringToNumber s"] StringToNumber_double [of s] by simp
next
  case (Bool b)
  assume "toNumber v = Inr n"
  with Bool obtain s where "n = finite_or_zero (StringToNumber s)"
    by (auto simp: js_coalesce_def split: sum.splits)
  then show ?thesis
    using finite_or_zero_double [of "StringToNumber s"] StringToNumber_double [of s] by simp
next
  case (Str t)
  assume "toNumber v = Inr n"
  with Str obtain s where "n = finite_or_zero (StringToNumber s)"
    by (auto simp: js_coalesce_def split: sum.splits)
  then show ?thesis
    using finite_or_zero_double [of "StringToNumber s"] StringToNumber_double [of s] by simp
next
  case (Arr xs ps)
  assume "toNumber v = Inr n"
  with Arr obtain s where "n = finite_or_zero (StringToNumber s)"
    by (auto simp: js_coalesce_def split: sum.splits)
  then show ?thesis
    using finite_or_zero_double [of "StringToNumber s"] StringToNumber_double [of s] by simp
next
  case (Obj ps)
  assume "toNumber v = Inr n"
  with Obj obtain s where "n = finite_or_zero (StringToNumber s)"
    by (auto simp: js_coalesce_def split: sum.splits if_splits)
  then show ?thesis
    using finite_or_zero_double [of "StringToNumber s"] StringToNumber_double [of s] by simp
qed






lemma pow2_970_large: "100 \<le> pow2 970"
proof -
  have "pow2 7 = 128"
    by (simp add: pow2_def)
  moreover have "pow2 7 \<le> pow2 970"
    by (intro pow2_mono) simp
  ultimately show ?thesis
    by simp
qed









text \<open>
  The tax is not net times rate over 100. For 3 units at price 1 and rate 7.5 the code
  computes \<open>3 * (7.5 / 100)\<close>, the double written 0.22499999999999998, where both
  \<open>3 * 7.5 / 100\<close> in doubles and the double nearest to the exact 0.225 are the double
  written 0.225.
\<close>

theorem calcTotals_tax_rounding:
  "calcTotals rounding_invoice =
     Inr \<lparr>net = Fin 3, vatRate = Fin (15 / 2),
          vat = Fin (2026619832316723 / 9007199254740992),
          gross = Fin (7262054399134925 / 2251799813685248)\<rparr>
   \<and> numToString (Fin (2026619832316723 / 9007199254740992)) = ''0.22499999999999998''
   \<and> num_div (num_mul (Fin 3) (Fin (15 / 2))) (Fin 100) = Fin (8106479329266893 / 36028797018963968)
   \<and> rnd (3 * (15 / 2) / 100) = Fin (8106479329266893 / 36028797018963968)
   \<and> numToString (Fin (8106479329266893 / 36028797018963968)) = ''0.225''"
  by code_simp


section \<open>Normalization of concrete documents\<close>

lemma strip_Nil: "strip ws [] = []"
proof -
  have "filter (\<lambda>w. w \<noteq> [] \<and> take (length w) [] = w) ws = []"
    by (induction ws) auto
  then show ?thesis
    by (subst strip.simps) simp
qed

lemma trim_Nil: "trim [] = []"
  by (simp add: trim_def strip_Nil)

lemma finiteOr_Undefined: "finiteOr Undefined dflt = Inr (Num (Fin 0))"
  by (simp add: finiteOr_def js_coalesce_def StringToNumber_def trim_Nil finite_or_zero_def)

lemma normalize_blank_eval:
  "normalizeData E g blank_doc = Inr (blank_state E g, Suc (Suc g))"
  by (simp add: blank_doc_def blank_state_def normalizeData_def normalizeSteps_def normInvoice_def
      or_uid_def finiteOr_Undefined spread_def arrayOrEmpty_def js_or_def base_settings_def
      STATUS_def todayISO_def Let_def)

text \<open>
  C2. The document \<open>{invoices: [{}]}\<close> normalizes to a state with one invoice: status
  \<open>Draft\<close>, one blank line item (quantity 1, unit price 0), issue date today, due date
  \<open>addDaysISO(today, 14)\<close>. Its tax rate is 0, not the default tax rate 19 of the
  settings: \<open>toNumber\<close> has already turned the missing rate into 0, which is finite, so
  the test of line 130 never selects the default.
\<close>

theorem normalize_blank_invoice:
  "normalizeData E g (Obj [(''invoices'', Arr [Obj []] [])]) =
     Inr (Obj [(''invoices'',
                Arr [Obj [(''id'', Str (uidOf E g)),
                          (''invoiceNumber'', Str []),
                          (''issueDate'', todayISO E),
                          (''dueDate'', addDaysISO E (todayISO E) (Num (Fin 14))),
                          (''clientId'', Str []),
                          (''status'', Str ''Draft''),
                          (''vatRate'', Num (Fin 0)),
                          (''items'', Arr [blank_item (Str (uidOf E (Suc g)))] []),
                          (''notes'', Str [])]] []),
               (''settings'', Obj base_settings),
               (''profile'', Obj base_profile),
               (''clients'', Arr [] [])], Suc (Suc g))"
  using normalize_blank_eval [of E g] by (simp add: blank_doc_def blank_state_def)

text \<open>
  C1. \<open>normalizeData\<close> is not total: on the document \<open>{invoices: [null]}\<close> the callback of
  line 123 reads \<open>inv.id\<close> of \<open>null\<close> and throws TypeError.
\<close>

theorem normalize_null_entry_throws:
  "normalizeData E g (Obj [(''invoices'', Arr [Null] [])]) = Inl TypeError"
  by (simp add: normalizeData_def normalizeSteps_def normInvoice_def spread_def arrayOrEmpty_def
      js_or_def)

section \<open>Objects as association lists\<close>

lemma lookup_put: "lookup (put ps k v) k' = (if k' = k then v else lookup ps k')"
  by (induction ps) auto

lemma has_key_set: "has_key ps k \<longleftrightarrow> k \<in> fst ` set ps"
  by (induction ps) auto

lemma lookup_append: "lookup (xs @ ys) k = (if has_key xs k then lookup xs k else lookup ys k)"
  by (induction xs) auto

lemma lookup_putAll:
  "lookup (putAll acc ps) k = (if has_key ps k then lookup (rev ps) k else lookup acc k)"
proof (induction ps arbitrary: acc)
  case Nil
  show ?case by simp
next
  case (Cons p ps)
  obtain k' v where p: "p = (k', v)" by (cases p)
  show ?case
    using Cons.IH [of "put acc k' v"]
    by (auto simp: p lookup_put lookup_append has_key_set)
qed

lemma is_obj_iff: "is_obj v \<longleftrightarrow> truthy v \<and> typeof_object v"
  by (cases v) auto

lemma getp_assign: "is_obj d \<Longrightarrow> getp (assign d k v) k' = (if k' = k then v else getp d k')"
  by (cases d) (auto simp: lookup_put)

lemma is_obj_assign: "is_obj (assign d k v) = is_obj d"
  by (cases d) auto

lemma normalizeSteps_settings:
  assumes "normalizeSteps E g d = Inr (d', g')" and "is_obj d"
  shows "getp d' ''settings'' = Obj (spread base_settings (js_or (getp d ''settings'') (Obj [])))"
  using assms
  by (auto simp: normalizeSteps_def Let_def getp_assign is_obj_assign split: sum.splits)

lemma not_is_obj_base: "is_obj base"
  by (simp add: base_def)

lemma rnd_1: "rnd 1 = Fin 1"
  by code_simp

lemma max1_toNumber:
  "toNumber v = Inr n \<Longrightarrow> \<exists>q. max1 n = Fin q \<and> 1 \<le> q \<and> rnd q = Fin q"
  using toNumber_double [of v n] by (auto simp: max_def rnd_1)

lemma nextNumber_ge1: "nextNumber a = Inr n \<Longrightarrow> \<exists>q. n = Fin q \<and> 1 \<le> q \<and> rnd q = Fin q"
  using max1_toNumber
  by (fastforce simp: nextNumber_def split: sum.splits)

lemma withNewInvoice_counter:
  "withNewInvoice a st n iv = Inr a' \<Longrightarrow> counter a' = Num (num_add n (Fin 1))"
  by (auto simp: withNewInvoice_def counter_def lookup_put split: sum.splits)

lemma counter_ok_after:
  assumes "nextNumber a = Inr n" and "withNewInvoice a st n iv = Inr a'"
  shows "counter_ok a'"
proof -
  from assms(1) obtain q where q: "n = Fin q" "1 \<le> q" "rnd q = Fin q"
    using nextNumber_ge1 by blast
  from rnd_succ [OF q(3) q(2)] obtain z where "rnd (q + 1) = Fin z" and "1 \<le> z"
    by blast
  with q(1) show ?thesis
    using withNewInvoice_counter [OF assms(2)] by (simp add: counter_ok_def)
qed

lemma createInvoice_counter: "createInvoice E u = Inr u' \<Longrightarrow> counter_ok (app u')"
  by (auto simp: createInvoice_def Let_def split: sum.splits dest: counter_ok_after)

lemma duplicateInvoice_counter:
  "duplicateInvoice E i u = Inr u' \<Longrightarrow> u' = u \<or> counter_ok (app u')"
  by (auto simp: duplicateInvoice_def Let_def notify_def split: sum.splits if_splits prod.splits dest: counter_ok_after)

section \<open>The invoice counter\<close>

lemma normalizeData_is_obj:
  "normalizeData E g raw = normalizeSteps E g (if is_obj raw then raw else base)"
  by (simp add: normalizeData_def is_obj_iff)

lemma normalizeData_counter:
  assumes "normalizeData E g raw = Inr (d, g')"
  shows "counter d =
     (if is_obj raw \<and> has_key (own_props (js_or (getp raw ''settings'') (Obj []))) ''nextInvoiceNumber''
      then lookup (rev (own_props (js_or (getp raw ''settings'') (Obj [])))) ''nextInvoiceNumber''
      else Num (Fin 1))"
proof (cases "is_obj raw")
  case True
  with assms have "normalizeSteps E g raw = Inr (d, g')"
    by (simp add: normalizeData_is_obj)
  from normalizeSteps_settings [OF this True] True show ?thesis
    by (simp add: counter_def spread_def lookup_putAll base_settings_def)
next
  case False
  with assms have "normalizeSteps E g base = Inr (d, g')"
    by (simp add: normalizeData_is_obj)
  from normalizeSteps_settings [OF this not_is_obj_base] False show ?thesis
    by (simp add: counter_def spread_def base_def js_or_def base_settings_def)
qed

text \<open>
  C6 (amended). The counter is at least 1 in every state that \<open>createInvoice\<close> returns, and
  \<open>duplicateInvoice\<close> either leaves the state as it is (no invoice with that id) or
  returns a state whose counter is at least 1: both store \<open>Math.max(1, n) + 1\<close>.
  \<open>normalizeData\<close> does not repair the counter: the state has the value of the
  document's own \<open>settings.nextInvoiceNumber\<close> when there is one, and 1 otherwise.
\<close>

theorem counter_invariant:
  "(createInvoice E u = Inr u1 \<longrightarrow> counter_ok (app u1))
   \<and> (duplicateInvoice E i u = Inr u2 \<longrightarrow> u2 = u \<or> counter_ok (app u2))
   \<and> (normalizeData E g raw = Inr (d, g') \<longrightarrow>
        counter d =
          (if is_obj raw \<and> has_key (own_props (js_or (getp raw ''settings'') (Obj []))) ''nextInvoiceNumber''
           then lookup (rev (own_props (js_or (getp raw ''settings'') (Obj [])))) ''nextInvoiceNumber''
           else Num (Fin 1)))"
  using createInvoice_counter duplicateInvoice_counter normalizeData_counter by blast

text \<open>
  C6 as stated fails: the document \<open>{settings: {nextInvoiceNumber: -5}}\<close> normalizes to a
  state whose counter is -5.
\<close>

theorem normalize_keeps_negative_counter:
  "normalizeData demo_env 0 negative_counter_doc = Inr (negative_counter_state, 0)
   \<and> counter negative_counter_state = Num (Fin (- 5))
   \<and> \<not> counter_ok negative_counter_state"
  by (simp add: normalizeData_def normalizeSteps_def negative_counter_doc_def negative_counter_state_def
      spread_def arrayOrEmpty_def js_or_def base_settings_def Let_def counter_def counter_ok_def)

theorem counter_invariant_witness:
  "(\<exists>u1. createInvoice demo_env (demo_ui base) = Inr u1 \<and> counter_ok (app u1)
      \<and> (\<exists>u2. duplicateInvoice demo_env (Str ''id_0'') u1 = Inr u2 \<and> u2 \<noteq> u1 \<and> counter_ok (app u2)))
   \<and> normalizeData demo_env 0 negative_counter_doc = Inr (negative_counter_state, 0)
   \<and> counter negative_counter_state = Num (Fin (- 5))"
proof -
  have "\<not> isl (createInvoice demo_env (demo_ui base))"
    by code_simp
  then obtain u1 where u1: "createInvoice demo_env (demo_ui base) = Inr u1"
    by (cases "createInvoice demo_env (demo_ui base)") auto
  have "\<not> isl (duplicateInvoice demo_env (Str ''id_0'') (projr (createInvoice demo_env (demo_ui base))))"
    by code_simp
  then obtain u2 where u2: "duplicateInvoice demo_env (Str ''id_0'') u1 = Inr u2"
    using u1 by (cases "duplicateInvoice demo_env (Str ''id_0'') u1") auto
  have ne: "toasts (projr (duplicateInvoice demo_env (Str ''id_0'') (projr (createInvoice demo_env (demo_ui base)))))
      \<noteq> toasts (projr (createInvoice demo_env (demo_ui base)))"
    by code_simp
  have n: "normalizeData demo_env 0 negative_counter_doc = Inr (negative_counter_state, 0)"
    by (simp add: normalizeData_def normalizeSteps_def negative_counter_doc_def negative_counter_state_def
      spread_def arrayOrEmpty_def js_or_def base_settings_def Let_def)
  have neq: "u2 \<noteq> u1"
    using ne u1 u2 by auto
  from counter_invariant [of demo_env "demo_ui base" u1 "Str ''id_0''" u2 0 negative_counter_doc negative_counter_state 0]
  have "counter_ok (app u1)"
    and "duplicateInvoice demo_env (Str ''id_0'') (demo_ui base) = Inr u2 \<longrightarrow> u2 = demo_ui base \<or> counter_ok (app u2)"
    and c: "counter negative_counter_state =
          (if is_obj negative_counter_doc \<and> has_key (own_props (js_or (getp negative_counter_doc ''settings'') (Obj []))) ''nextInvoiceNumber''
           then lookup (rev (own_props (js_or (getp negative_counter_doc ''settings'') (Obj [])))) ''nextInvoiceNumber''
           else Num (Fin 1))"
    using u1 n by blast+
  moreover from counter_invariant [of demo_env u1 _ "Str ''id_0''" u2] u2 neq
  have "counter_ok (app u2)" by blast
  moreover from c have "counter negative_counter_state = Num (Fin (- 5))"
    by (simp add: negative_counter_doc_def js_or_def)
  ultimately show ?thesis
    using u1 u2 neq n by blast
qed

section \<open>Import\<close>

lemma import_rejected_iff:
  "import_rejected v \<longleftrightarrow>
     (\<not> is_obj v \<or> (\<not> truthy (getp v ''clients'') \<and> \<not> truthy (getp v ''invoices'')
                      \<and> \<not> truthy (getp v ''settings'')))"
  by (cases v) (auto simp: import_rejected_def)

lemma importJSON_rejects:
  "import_rejected (safeParse p Null) \<Longrightarrow> importJSON E p u = Inr (u\<lparr>toasts := toasts u @ [''Invalid JSON'']\<rparr>)"
  by (simp add: importJSON_def notify_def)

lemma importJSON_accepts:
  "\<not> import_rejected (safeParse p Null) \<Longrightarrow> normalizeData E (gen u) (safeParse p Null) = Inr (d, g') \<Longrightarrow>
   importJSON E p u = Inr (u\<lparr>app := d, activeInvoiceId := Null, toasts := toasts u @ [''Imported''], gen := g'\<rparr>)"
  by (simp add: importJSON_def notify_def)

text \<open>
  C5 (amended). Import rejects exactly when the parsed value is not a non-null object or
  each of its properties \<open>clients\<close>, \<open>invoices\<close>, \<open>settings\<close> is absent or falsy (a text
  that does not parse counts as \<open>null\<close>). On rejection the state is unchanged and the one
  notice \<open>Invalid JSON\<close> is raised. Otherwise the parsed value goes through
  \<open>normalizeData\<close> and, when that returns, its result replaces the application state, the
  selection is cleared and the notice \<open>Imported\<close> is raised. Importing \<open>{"foo": 1}\<close> is
  rejected.
\<close>

theorem importJSON_spec:
  "(import_rejected (safeParse p Null) \<longleftrightarrow>
      (\<not> is_obj (safeParse p Null)
       \<or> (\<not> truthy (getp (safeParse p Null) ''clients'') \<and> \<not> truthy (getp (safeParse p Null) ''invoices'')
           \<and> \<not> truthy (getp (safeParse p Null) ''settings''))))
   \<and> (import_rejected (safeParse p Null) \<longrightarrow>
        importJSON E p u = Inr (u\<lparr>toasts := toasts u @ [''Invalid JSON'']\<rparr>))
   \<and> (\<not> import_rejected (safeParse p Null) \<longrightarrow>
        normalizeData E (gen u) (safeParse p Null) = Inr (d, g') \<longrightarrow>
        importJSON E p u =
          Inr (u\<lparr>app := d, activeInvoiceId := Null, toasts := toasts u @ [''Imported''], gen := g'\<rparr>))
   \<and> importJSON E (Some (Obj [(''foo'', Num (Fin 1))])) u = Inr (u\<lparr>toasts := toasts u @ [''Invalid JSON'']\<rparr>)"
proof -
  have "import_rejected (safeParse (Some (Obj [(''foo'', Num (Fin 1))])) Null)"
    by (simp add: import_rejected_def safeParse_def js_coalesce_def)
  then show ?thesis
    using import_rejected_iff importJSON_rejects importJSON_accepts by blast
qed

text \<open>
  C5 as stated fails: \<open>{"clients": null}\<close> is an object that contains the key \<open>clients\<close>,
  and it is rejected.
\<close>

theorem importJSON_rejects_present_key:
  "is_obj (Obj [(''clients'', Null)])
   \<and> has_key [(''clients'', Null)] ''clients''
   \<and> importJSON demo_env (Some (Obj [(''clients'', Null)])) (demo_ui base)
       = Inr ((demo_ui base)\<lparr>toasts := [''Invalid JSON'']\<rparr>)"
  by (simp add: importJSON_def import_rejected_def safeParse_def js_coalesce_def notify_def demo_ui_def)

theorem importJSON_spec_witness:
  "import_rejected (safeParse None Null)
   \<and> importJSON demo_env None (demo_ui base) = Inr ((demo_ui base)\<lparr>toasts := [''Invalid JSON'']\<rparr>)
   \<and> \<not> import_rejected (safeParse (Some negative_counter_doc) Null)
   \<and> normalizeData demo_env (gen (demo_ui base)) (safeParse (Some negative_counter_doc) Null) = Inr (negative_counter_state, 0)
   \<and> importJSON demo_env (Some negative_counter_doc) (demo_ui base)
       = Inr ((demo_ui base)\<lparr>app := negative_counter_state, activeInvoiceId := Null, toasts := [''Imported''], gen := 0\<rparr>)"
proof -
  have r: "import_rejected (safeParse None Null)"
    by (simp add: import_rejected_def safeParse_def)
  have a: "\<not> import_rejected (safeParse (Some negative_counter_doc) Null)"
    by (simp add: import_rejected_def safeParse_def js_coalesce_def negative_counter_doc_def)
  have n: "normalizeData demo_env (gen (demo_ui base)) (safeParse (Some negative_counter_doc) Null) = Inr (negative_counter_state, 0)"
    by (simp add: normalizeData_def normalizeSteps_def negative_counter_doc_def negative_counter_state_def
      spread_def arrayOrEmpty_def js_or_def base_settings_def Let_def safeParse_def js_coalesce_def demo_ui_def)
  from importJSON_spec [of None demo_env "demo_ui base"] r
  have 1: "importJSON demo_env None (demo_ui base) = Inr ((demo_ui base)\<lparr>toasts := [''Invalid JSON'']\<rparr>)"
    by (simp add: demo_ui_def)
  from importJSON_spec [of "Some negative_counter_doc" demo_env "demo_ui base" negative_counter_state 0] a n
  have 2: "importJSON demo_env (Some negative_counter_doc) (demo_ui base)
       = Inr ((demo_ui base)\<lparr>app := negative_counter_state, activeInvoiceId := Null, toasts := [''Imported''], gen := 0\<rparr>)"
    by (simp add: demo_ui_def)
  show ?thesis
    using r a n 1 2 by blast
qed

section \<open>Patching an invoice\<close>

lemma mapE_map: "(\<And>x. x \<in> set xs \<Longrightarrow> f x = Inr (h x)) \<Longrightarrow> mapE f xs = Inr (map h xs)"
  by (induction xs) auto

lemma put_same: "has_key ps k \<Longrightarrow> lookup ps k = v \<Longrightarrow> put ps k v = ps"
  by (induction ps) auto






section \<open>Deleting a client\<close>

lemma findById_total:
  "list_all (\<lambda>x. \<not> nullish x) cs \<Longrightarrow> \<exists>c. findById i cs = Inr c \<and> (c = Undefined \<or> c \<in> set cs)"
  by (induction cs) (auto simp: get_def)

lemma filterOthers_total:
  "list_all (\<lambda>x. \<not> nullish x) cs \<Longrightarrow> \<exists>cs'. filterOthers i cs = Inr cs'"
  by (induction cs) (auto simp: get_def)

lemma client_ok_name:
  "client_ok c \<Longrightarrow> typeof_string (js_or (if nullish c then Undefined else getp c ''name'') (Str ''this client''))"
  by (auto simp: client_ok_def js_or_def)

lemma is_plain_not_nullish: "is_plain x \<Longrightarrow> \<not> nullish x"
  by (cases x) auto

lemma clearClient_ok:
  "\<not> nullish x \<Longrightarrow>
   clearClient i x =
     Inr (if strict_eq (getp x ''clientId'') i then Obj (put (own_props x) ''clientId'' (Str [])) else x)"
  by (simp add: clearClient_def get_def)

lemma cleared_fields:
  "is_plain x \<Longrightarrow>
   getp (Obj (put (own_props x) ''clientId'' (Str []))) key = (if key = ''clientId'' then Str [] else getp x key)"
  by (cases x) (auto simp: lookup_put)

text \<open>
  C8. \<open>deleteClient\<close>, confirmed by the user, on a state whose clients have string (or
  falsy) names and whose invoices are plain objects: it returns a state with as many
  invoices as before, in the same order; an invoice whose \<open>clientId\<close> is strictly equal to
  the deleted id has \<open>clientId\<close> set to the empty string and every other property as
  before; every other invoice is unchanged.
\<close>

theorem deleteClient_spec:
  assumes cl: "getp (app u) ''clients'' = Arr cs pc" and cok: "list_all client_ok cs"
    and iv: "getp (app u) ''invoices'' = Arr xs px" and pl: "list_all is_plain xs"
  shows "\<exists>u' ys. deleteClient True i u = Inr u'
     \<and> getp (app u') ''invoices'' = Arr ys []
     \<and> length ys = length xs
     \<and> (\<forall>j<length xs.
           (strict_eq (getp (xs ! j) ''clientId'') i \<longrightarrow>
              getp (ys ! j) ''clientId'' = Str []
              \<and> (\<forall>key. key \<noteq> ''clientId'' \<longrightarrow> getp (ys ! j) key = getp (xs ! j) key))
         \<and> (\<not> strict_eq (getp (xs ! j) ''clientId'') i \<longrightarrow> ys ! j = xs ! j))"
proof -
  let ?f = "\<lambda>x. if strict_eq (getp x ''clientId'') i then Obj (put (own_props x) ''clientId'' (Str [])) else x"
  from cl have nn: "\<not> nullish (app u)"
    by (cases "app u") auto
  from cok have cnn: "list_all (\<lambda>x. \<not> nullish x) cs"
    by (simp add: list_all_iff client_ok_def)
  from findById_total [OF cnn] obtain c where c: "findById i cs = Inr c" and cm: "c = Undefined \<or> c \<in> set cs"
    by blast
  have name: "typeof_string (js_or (if nullish c then Undefined else getp c ''name'') (Str ''this client''))"
  proof (cases "c = Undefined")
    case True
    then show ?thesis by (simp add: js_or_def)
  next
    case False
    with cm cok have "client_ok c"
      by (simp add: list_all_iff)
    then show ?thesis by (rule client_ok_name)
  qed
  from filterOthers_total [OF cnn] obtain cs' where f: "filterOthers i cs = Inr cs'"
    by blast
  have m: "mapE (clearClient i) xs = Inr (map ?f xs)"
    using pl by (intro mapE_map clearClient_ok) (auto simp: list_all_iff is_plain_not_nullish)
  have r: "deleteClient True i u =
      Inr (notify ''Client deleted''
            (u\<lparr>app := Obj (put (put (own_props (app u)) ''clients'' (Arr cs' [])) ''invoices'' (Arr (map ?f xs) []))\<rparr>))"
    using nn cl iv c name f m
    by (simp add: deleteClient_def get_def listOrEmpty_def)
  have "\<forall>j<length xs.
           (strict_eq (getp (xs ! j) ''clientId'') i \<longrightarrow>
              getp (map ?f xs ! j) ''clientId'' = Str []
              \<and> (\<forall>key. key \<noteq> ''clientId'' \<longrightarrow> getp (map ?f xs ! j) key = getp (xs ! j) key))
         \<and> (\<not> strict_eq (getp (xs ! j) ''clientId'') i \<longrightarrow> map ?f xs ! j = xs ! j)"
  proof (intro allI impI)
    fix j assume j: "j < length xs"
    with pl have p: "is_plain (xs ! j)"
      by (simp add: list_all_length)
    show "(strict_eq (getp (xs ! j) ''clientId'') i \<longrightarrow>
              getp (map ?f xs ! j) ''clientId'' = Str []
              \<and> (\<forall>key. key \<noteq> ''clientId'' \<longrightarrow> getp (map ?f xs ! j) key = getp (xs ! j) key))
         \<and> (\<not> strict_eq (getp (xs ! j) ''clientId'') i \<longrightarrow> map ?f xs ! j = xs ! j)"
      using j cleared_fields [OF p] by (simp del: getp.simps)
  qed
  with r show ?thesis
    by (intro exI [of _ "notify ''Client deleted''
            (u\<lparr>app := Obj (put (put (own_props (app u)) ''clients'' (Arr cs' [])) ''invoices'' (Arr (map ?f xs) []))\<rparr>)"]
          exI [of _ "map ?f xs"]) (simp add: notify_def lookup_put)
qed


theorem deleteClient_spec_witness:
  "getp (app (demo_ui demo_state)) ''clients'' = Arr demo_clients []
   \<and> list_all client_ok demo_clients
   \<and> getp (app (demo_ui demo_state)) ''invoices'' = Arr demo_invoices []
   \<and> list_all is_plain demo_invoices
   \<and> (\<exists>u' ys. deleteClient True (Str ''c1'') (demo_ui demo_state) = Inr u'
          \<and> getp (app u') ''invoices'' = Arr ys []
          \<and> length ys = 3
          \<and> getp (ys ! 0) ''clientId'' = Str []
          \<and> getp (ys ! 0) ''invoiceNumber'' = Str ''INV-a''
          \<and> ys ! 1 = demo_invoice ''b'' ''c2'' ''2024-03-05''
          \<and> getp (ys ! 2) ''clientId'' = Str []
          \<and> getp (ys ! 2) ''issueDate'' = Str ''2024-02-20'')"
proof -
  have h1: "getp (app (demo_ui demo_state)) ''clients'' = Arr demo_clients []"
    by (simp add: demo_ui_def demo_state_def demo_props_def)
  have h2: "list_all client_ok demo_clients"
    by (simp add: demo_clients_def demo_client_def client_ok_def)
  have h3: "getp (app (demo_ui demo_state)) ''invoices'' = Arr demo_invoices []"
    by (simp add: demo_ui_def demo_state_def demo_props_def)
  have h4: "list_all is_plain demo_invoices"
    by (simp add: demo_invoices_def demo_invoice_def)
  from deleteClient_spec [OF h1 h2 h3 h4, of "Str ''c1''"]
  obtain u' ys where r: "deleteClient True (Str ''c1'') (demo_ui demo_state) = Inr u'"
    and g: "getp (app u') ''invoices'' = Arr ys []"
    and l: "length ys = length demo_invoices"
    and e: "\<forall>j<length demo_invoices.
           (strict_eq (getp (demo_invoices ! j) ''clientId'') (Str ''c1'') \<longrightarrow>
              getp (ys ! j) ''clientId'' = Str []
              \<and> (\<forall>key. key \<noteq> ''clientId'' \<longrightarrow> getp (ys ! j) key = getp (demo_invoices ! j) key))
         \<and> (\<not> strict_eq (getp (demo_invoices ! j) ''clientId'') (Str ''c1'') \<longrightarrow> ys ! j = demo_invoices ! j)"
    by blast
  have n: "length demo_invoices = 3"
    by (simp add: demo_invoices_def)
  from e n have e0: "(strict_eq (getp (demo_invoices ! 0) ''clientId'') (Str ''c1'') \<longrightarrow>
              getp (ys ! 0) ''clientId'' = Str []
              \<and> (\<forall>key. key \<noteq> ''clientId'' \<longrightarrow> getp (ys ! 0) key = getp (demo_invoices ! 0) key))"
    and e1: "(\<not> strict_eq (getp (demo_invoices ! 1) ''clientId'') (Str ''c1'') \<longrightarrow> ys ! 1 = demo_invoices ! 1)"
    and e2: "(strict_eq (getp (demo_invoices ! 2) ''clientId'') (Str ''c1'') \<longrightarrow>
              getp (ys ! 2) ''clientId'' = Str []
              \<and> (\<forall>key. key \<noteq> ''clientId'' \<longrightarrow> getp (ys ! 2) key = getp (demo_invoices ! 2) key))"
    by simp_all
  from e0 have "getp (ys ! 0) ''clientId'' = Str []" and "getp (ys ! 0) ''invoiceNumber'' = Str ''INV-a''"
    by (simp_all add: demo_invoices_def demo_invoice_def)
  moreover from e1 have "ys ! 1 = demo_invoice ''b'' ''c2'' ''2024-03-05''"
    by (simp add: demo_invoices_def demo_invoice_def)
  moreover from e2 have "getp (ys ! 2) ''clientId'' = Str []" and "getp (ys ! 2) ''issueDate'' = Str ''2024-02-20''"
    by (simp_all add: demo_invoices_def demo_invoice_def)
  ultimately show ?thesis
    using r g l n h1 h2 h3 h4 by auto
qed

section \<open>The argument of normalizeData\<close>




section \<open>CSV export\<close>

subsection \<open>Two decimals\<close>

lemma is_digit_digit_char: "0 \<le> d \<Longrightarrow> d < 10 \<Longrightarrow> is_digit (digit_char d)"
  by (simp add: is_digit_def digit_char_def)

lemma int_digits_digits: "0 \<le> n \<Longrightarrow> int_digits n \<noteq> [] \<and> list_all is_digit (int_digits n)"
proof (induction n rule: int_digits.induct)
  case (1 n)
  show ?case
  proof (cases "n < 10")
    case True
    then have "int_digits n = [digit_char n]"
      by (subst int_digits.simps) simp
    with True "1.prems" show ?thesis
      by (simp add: is_digit_digit_char)
  next
    case False
    with "1.prems" "1.IH" have "int_digits (n div 10) \<noteq> [] \<and> list_all is_digit (int_digits (n div 10))"
      by simp
    moreover have "is_digit (digit_char (n mod 10))"
      by (simp add: is_digit_digit_char)
    ultimately show ?thesis
      using False by (subst (1 2) int_digits.simps) simp
  qed
qed


lemma is_digit_plain: "is_digit c \<Longrightarrow> c \<noteq> CHR ''-'' \<and> c \<noteq> CHR 0x22 \<and> c \<noteq> CHR '','' \<and> c \<noteq> CHR 0x0A"
  by (auto simp: is_digit_def)

lemma two_decimals_shape:
  assumes "ip \<noteq> []" "list_all is_digit ip" "length fp = 2" "list_all is_digit fp"
  shows "two_decimals (ip @ ''.'' @ fp)" and "two_decimals (''-'' @ ip @ ''.'' @ fp)"
    and "\<not> needs_quotes (ip @ ''.'' @ fp)" and "\<not> needs_quotes (''-'' @ ip @ ''.'' @ fp)"
proof -
  from assms(1,2) have h: "hd ip \<noteq> CHR ''-''"
    using is_digit_plain [of "hd ip"] by (cases ip) auto
  from assms(1) have l: "Suc 0 \<le> length ip"
    by (cases ip) simp_all
  have e: "hd (ip @ ''.'' @ fp) = hd ip"
    using assms(1) by simp
  show "two_decimals (ip @ ''.'' @ fp)"
    using h l e assms by (simp add: two_decimals_def Let_def nth_append)
  show "two_decimals (''-'' @ ip @ ''.'' @ fp)"
    using h l assms by (simp add: two_decimals_def Let_def nth_append Suc_le_eq)
  show "\<not> needs_quotes (ip @ ''.'' @ fp)" and "\<not> needs_quotes (''-'' @ ip @ ''.'' @ fp)"
    using assms(2,4) is_digit_plain by (auto simp: needs_quotes_def list_all_iff)
qed

lemma fixedPos_shape:
  assumes "0 \<le> q" "q < 10 ^ 21"
  shows "\<exists>ip fp. fixedPos q = ip @ ''.'' @ fp \<and> ip \<noteq> [] \<and> list_all is_digit ip
           \<and> length fp = 2 \<and> list_all is_digit fp"
proof -
  define ds where "ds = int_digits \<lfloor>q * 100 + 1 / 2\<rfloor>"
  define m where "m = replicate (3 - length ds) CHR ''0'' @ ds"
  have "0 \<le> \<lfloor>q * 100 + 1 / 2\<rfloor>"
    using assms(1) by simp
  then have d: "ds \<noteq> []" "list_all is_digit ds"
    using int_digits_digits [of "\<lfloor>q * 100 + 1 / 2\<rfloor>"] by (simp_all add: ds_def)
  have z: "is_digit CHR ''0''"
    by (simp add: is_digit_def)
  have mall: "list_all is_digit m"
    using d z by (auto simp: m_def list_all_iff)
  have ml: "3 \<le> length m"
    by (simp add: m_def)
  have f: "fixedPos q = take (length m - 2) m @ ''.'' @ drop (length m - 2) m"
    using assms(2) by (simp add: fixedPos_def Let_def ds_def m_def)
  have "take (length m - 2) m \<noteq> []"
    using ml by auto
  moreover have "list_all is_digit (take (length m - 2) m)" "list_all is_digit (drop (length m - 2) m)"
    using mall by (auto simp: list_all_iff dest: in_set_takeD in_set_dropD)
  moreover have "length (drop (length m - 2) m) = 2"
    using ml by simp
  ultimately show ?thesis
    using f by blast
qed

lemma toFixed2_two_decimals:
  assumes "\<bar>q\<bar> < 10 ^ 21"
  shows "two_decimals (toFixed2 (Fin q)) \<and> quoted (toFixed2 (Fin q)) = toFixed2 (Fin q)"
proof (cases "q < 0")
  case True
  with assms have "0 \<le> - q" "- q < 10 ^ 21" by simp_all
  from fixedPos_shape [OF this] obtain ip fp where
    "fixedPos (- q) = ip @ ''.'' @ fp" "ip \<noteq> []" "list_all is_digit ip" "length fp = 2" "list_all is_digit fp"
    by blast
  with True two_decimals_shape(2,4) [of ip fp] show ?thesis
    by (simp add: quoted_def)
next
  case False
  with assms have "0 \<le> q" "q < 10 ^ 21" by simp_all
  from fixedPos_shape [OF this] obtain ip fp where
    "fixedPos q = ip @ ''.'' @ fp" "ip \<noteq> []" "list_all is_digit ip" "length fp = 2" "list_all is_digit fp"
    by blast
  with False two_decimals_shape(1,3) [of ip fp] show ?thesis
    by (simp add: quoted_def)
qed

subsection \<open>Sorting and rows\<close>

lemma sortKey_issueKey: "sortKey x = Inr (s, y) \<Longrightarrow> y = x \<and> s = issueKey x"
  by (auto simp: issueKey_def) (auto simp: sortKey_def split: sum.splits)

lemma sortKeys_pairs:
  "sortKeys xs = Inr ks \<Longrightarrow> map snd ks = xs \<and> (\<forall>p\<in>set ks. fst p = issueKey (snd p))"
proof (induction xs arbitrary: ks)
  case Nil
  then show ?case by simp
next
  case (Cons x xs)
  from Cons.prems obtain k ks' where k: "sortKey x = Inr k" and ks': "sortKeys xs = Inr ks'"
    and e: "ks = k # ks'"
    by (auto split: sum.splits)
  from k have "snd k = x \<and> fst k = issueKey x"
    using sortKey_issueKey [of x "fst k" "snd k"] by simp
  with Cons.IH [OF ks'] e show ?case
    by simp
qed

lemma set_insertBy: "set (insertBy cmp x ys) = insert x (set ys)"
  by (induction ys) auto

lemma mset_insertBy: "mset (insertBy cmp x ys) = add_mset x (mset ys)"
  by (induction ys) auto

lemma mset_foldr_insertBy: "mset (foldr (insertBy cmp) ks []) = mset ks"
  by (induction ks) (auto simp: mset_insertBy)

lemma sorted_insertBy:
  assumes c: "consistent_cmp cmp"
  shows "sorted_wrt (\<lambda>p q. cmp (fst q) (fst p) \<le> 0) ys \<Longrightarrow>
         sorted_wrt (\<lambda>p q. cmp (fst q) (fst p) \<le> 0) (insertBy cmp x ys)"
proof (induction ys)
  case Nil
  show ?case by simp
next
  case (Cons y ys)
  from c have tot: "\<And>a b. cmp a b \<le> 0 \<or> cmp b a \<le> 0"
    and tr: "\<And>a b d. cmp a b \<le> 0 \<Longrightarrow> cmp b d \<le> 0 \<Longrightarrow> cmp a d \<le> 0"
    by (auto simp: consistent_cmp_def)
  show ?case
  proof (cases "cmp (fst y) (fst x) \<le> 0")
    case True
    have "\<forall>z\<in>set ys. cmp (fst z) (fst x) \<le> 0"
    proof
      fix z assume "z \<in> set ys"
      with Cons.prems have "cmp (fst z) (fst y) \<le> 0" by simp
      with True show "cmp (fst z) (fst x) \<le> 0" by (blast intro: tr)
    qed
    with True Cons.prems show ?thesis by simp
  next
    case False
    with tot [of "fst y" "fst x"] have "cmp (fst x) (fst y) \<le> 0" by simp
    with False Cons show ?thesis
      by (simp add: set_insertBy)
  qed
qed

lemma sorted_foldr_insertBy:
  "consistent_cmp cmp \<Longrightarrow> sorted_wrt (\<lambda>p q. cmp (fst q) (fst p) \<le> 0) (foldr (insertBy cmp) ks [])"
  by (induction ks) (auto simp: sorted_insertBy)

lemma sortByIssueDate_sorted:
  assumes s: "sortByIssueDate E xs = Inr ivs" and c: "consistent_cmp (localeCompare E)"
  shows "mset ivs = mset xs
     \<and> sorted_wrt (\<lambda>x y. localeCompare E (issueKey y) (issueKey x) \<le> 0) ivs"
proof (cases "length xs < 2")
  case True
  with s have e: "ivs = xs"
    by (simp add: sortByIssueDate_def)
  from True have "xs = [] \<or> (\<exists>x. xs = [x])"
    by (cases xs) (auto simp: less_Suc_eq_0_disj)
  with e show ?thesis by auto
next
  case False
  with s obtain ks where ks: "sortKeys xs = Inr ks"
    and e: "ivs = map snd (foldr (insertBy (localeCompare E)) ks [])"
    by (auto simp: sortByIssueDate_def split: sum.splits)
  let ?S = "foldr (insertBy (localeCompare E)) ks []"
  from sortKeys_pairs [OF ks] have m: "map snd ks = xs" and k: "\<forall>p\<in>set ks. fst p = issueKey (snd p)"
    by simp_all
  have ms: "mset ?S = mset ks"
    by (rule mset_foldr_insertBy)
  then have "set ?S = set ks"
    by (rule mset_eq_setD)
  with k have k': "\<forall>p\<in>set ?S. fst p = issueKey (snd p)"
    by simp
  have "sorted_wrt (\<lambda>p q. localeCompare E (fst q) (fst p) \<le> 0) ?S"
    using c by (rule sorted_foldr_insertBy)
  then have "sorted_wrt (\<lambda>p q. localeCompare E (issueKey (snd q)) (issueKey (snd p)) \<le> 0) ?S"
    using k' by (auto simp: sorted_wrt_iff_nth_less)
  then have "sorted_wrt (\<lambda>x y. localeCompare E (issueKey y) (issueKey x) \<le> 0) ivs"
    by (simp add: e sorted_wrt_map)
  moreover have "mset ivs = mset xs"
    using ms m by (metis e mset_map)
  ultimately show ?thesis by simp
qed

lemma csvRows_rows:
  "csvRows cs cur ivs = Inr rows \<Longrightarrow> list_all2 (\<lambda>iv r. csvFields cs cur iv = Inr r) ivs rows"
  by (induction ivs arbitrary: rows) (auto split: sum.splits)

lemma truthy_not_nullish: "truthy v \<Longrightarrow> \<not> nullish v"
  by (cases v) auto

lemma js_coalesce_js_or: "js_coalesce (js_or x (Str s)) d = js_or x (Str s)"
  by (simp add: js_coalesce_def js_or_def truthy_not_nullish)

lemma js_coalesce_Str: "js_coalesce (Str s) d = Str s"
  by (simp add: js_coalesce_def)

lemma esc_Str: "esc (Str s) = Inr (quoted s)"
  by (simp add: esc_def js_coalesce_def)

lemma esc_quoted: "esc v = Inr f \<Longrightarrow> \<exists>s. ToString (js_coalesce v (Str [])) = Inr s \<and> f = quoted s"
  by (auto simp: esc_def split: sum.splits)

lemma csvFields_shape:
  assumes "csvFields cs cur iv = Inr r"
  shows "\<exists>t s0 s1 s2 s3 s4 s9.
      calcTotals iv = Inr t
    \<and> ToString (js_or (getp iv ''invoiceNumber'') (Str [])) = Inr s0
    \<and> ToString (js_or (getp iv ''issueDate'') (Str [])) = Inr s1
    \<and> ToString (js_or (getp iv ''dueDate'') (Str [])) = Inr s2
    \<and> ToString (js_or (case clientsById_get cs (getp iv ''clientId'') of
                        None \<Rightarrow> Undefined | Some c \<Rightarrow> getp c ''name'') (Str [])) = Inr s3
    \<and> ToString (js_or (getp iv ''status'') (Str [])) = Inr s4
    \<and> ToString (js_coalesce cur (Str [])) = Inr s9
    \<and> r = [quoted s0, quoted s1, quoted s2, quoted s3, quoted s4,
           quoted (toFixed2 (net t)), quoted (numToString (vatRate t)),
           quoted (toFixed2 (vat t)), quoted (toFixed2 (gross t)), quoted s9]"
  using assms
  by (auto simp: csvFields_def cells_def get_def esc_def js_coalesce_js_or js_coalesce_Str
      split: sum.splits if_splits)

lemma str_cmp_total: "str_cmp a b \<le> 0 \<or> str_cmp b a \<le> 0"
  by (induction a b rule: str_cmp.induct) auto

lemma str_cmp_trans: "str_cmp a b \<le> 0 \<Longrightarrow> str_cmp b c \<le> 0 \<Longrightarrow> str_cmp a c \<le> 0"
proof (induction a b arbitrary: c rule: str_cmp.induct)
  case 1
  then show ?case by simp
next
  case (2 y ys)
  then show ?case by (cases c) auto
next
  case (3 x xs)
  then show ?case by simp
next
  case (4 x xs y ys)
  show ?case
  proof (cases c)
    case Nil
    with "4.prems" show ?thesis by simp
  next
    case (Cons z zs)
    with "4.prems" "4.IH" [of zs] show ?thesis
      by (auto split: if_splits)
  qed
qed

lemma consistent_str_cmp: "consistent_cmp (localeCompare demo_env)"
  using str_cmp_total str_cmp_trans
  by (simp add: consistent_cmp_def demo_env_def)

lemma csvCurrency_text: "csvCurrency a = Inr cur \<Longrightarrow> js_coalesce cur (Str []) = cur"
  by (auto simp: csvCurrency_def js_coalesce_js_or split: sum.splits)

lemma quoted_meaning:
  "quoted s =
     (if \<exists>c\<in>set s. c = CHR 0x22 \<or> c = CHR '','' \<or> c = CHR 0x0A
      then [CHR 0x22] @ concat (map (\<lambda>c. if c = CHR 0x22 then [CHR 0x22, CHR 0x22] else [c]) s) @ [CHR 0x22]
      else s)"
  by (simp add: quoted_def needs_quotes_def double_quotes_def)

lemma toFixed2_doubles:
  "toFixed2 (num_mul (Fin 1) (num_div (Fin (15 / 2)) (Fin 100))) = ''0.07''
   \<and> toFixed2 (num_mul (rnd (1 / 2)) (rnd (201 / 100))) = ''1.00''"
  by code_simp

text \<open>
  C9 (amended). When \<open>exportCSV\<close> completes on a state whose \<open>invoices\<close> is an array, the
  text is the header line followed by one line per invoice, lines joined by newlines and
  fields by commas. The rows are those of the invoices rearranged so that, by the
  comparator \<open>localeCompare\<close> on the issue-date texts, no row has an earlier date than a
  row after it. A row holds, in the order of the header, the quoted texts of invoice
  number, issue date, due date, client name, status, \<open>net.toFixed(2)\<close>, the tax rate,
  \<open>vat.toFixed(2)\<close>, \<open>gross.toFixed(2)\<close> and the currency, the amounts being those that
  \<open>calcTotals\<close> computes in doubles. For a finite amount of magnitude below \<open>1e21\<close> the
  text has exactly two decimals after a point and is not quoted; larger amounts print in
  exponent notation, and amounts that overflowed as \<open>Infinity\<close> or \<open>NaN\<close>. Quoting wraps
  a text that contains a double quote, a comma or a newline in double quotes and doubles
  each double quote inside; other texts are left as they are.
\<close>

theorem exportCSV_spec:
  assumes ex: "exportCSV E u = Inr (csv, u')"
    and iv: "getp (app u) ''invoices'' = Arr xs px"
    and c: "consistent_cmp (localeCompare E)"
  shows "\<exists>rows ivs cs cur.
       csv = joinWith [CHR 0x0A] (joinWith '','' header # map (joinWith '','') rows)
     \<and> u' = u\<lparr>toasts := toasts u @ [''CSV exported'']\<rparr>
     \<and> length rows = length xs
     \<and> mset ivs = mset xs
     \<and> sorted_wrt (\<lambda>x y. localeCompare E (issueKey y) (issueKey x) \<le> 0) ivs
     \<and> csvClients (app u) = Inr cs
     \<and> csvCurrency (app u) = Inr cur
     \<and> (\<forall>j<length rows. \<exists>t s0 s1 s2 s3 s4 s9.
            calcTotals (ivs ! j) = Inr t
          \<and> ToString (js_or (getp (ivs ! j) ''invoiceNumber'') (Str [])) = Inr s0
          \<and> ToString (js_or (getp (ivs ! j) ''issueDate'') (Str [])) = Inr s1
          \<and> ToString (js_or (getp (ivs ! j) ''dueDate'') (Str [])) = Inr s2
          \<and> ToString (js_or (case clientsById_get cs (getp (ivs ! j) ''clientId'') of
                              None \<Rightarrow> Undefined | Some c \<Rightarrow> getp c ''name'') (Str [])) = Inr s3
          \<and> ToString (js_or (getp (ivs ! j) ''status'') (Str [])) = Inr s4
          \<and> ToString cur = Inr s9
          \<and> rows ! j = [quoted s0, quoted s1, quoted s2, quoted s3, quoted s4,
                        quoted (toFixed2 (net t)), quoted (numToString (vatRate t)),
                        quoted (toFixed2 (vat t)), quoted (toFixed2 (gross t)), quoted s9])
     \<and> (\<forall>q. \<bar>q\<bar> < 10 ^ 21 \<longrightarrow>
            two_decimals (toFixed2 (Fin q)) \<and> quoted (toFixed2 (Fin q)) = toFixed2 (Fin q))
     \<and> (\<forall>s. quoted s =
            (if \<exists>c\<in>set s. c = CHR 0x22 \<or> c = CHR '','' \<or> c = CHR 0x0A
             then [CHR 0x22] @ concat (map (\<lambda>c. if c = CHR 0x22 then [CHR 0x22, CHR 0x22] else [c]) s) @ [CHR 0x22]
             else s))"
proof -
  from ex obtain rows where rows: "exportCSV_rows E (app u) = Inr rows"
    and csv: "csv = joinWith [CHR 0x0A] (joinWith '','' header # map (joinWith '','') rows)"
    and u': "u' = u\<lparr>toasts := toasts u @ [''CSV exported'']\<rparr>"
    by (auto simp: exportCSV_def notify_def split: sum.splits)
  from rows obtain cs cur ivs where cs: "csvClients (app u) = Inr cs"
    and cur: "csvCurrency (app u) = Inr cur"
    and srt: "csvSorted E (app u) = Inr ivs"
    and rs: "csvRows cs cur ivs = Inr rows"
    by (auto simp: exportCSV_rows_def split: sum.splits)
  from iv have "\<not> nullish (app u)"
    by (cases "app u") auto
  with srt iv have "sortByIssueDate E xs = Inr ivs"
    by (simp add: csvSorted_def get_def)
  from sortByIssueDate_sorted [OF this c]
  have ms: "mset ivs = mset xs"
    and so: "sorted_wrt (\<lambda>x y. localeCompare E (issueKey y) (issueKey x) \<le> 0) ivs"
    by simp_all
  from csvRows_rows [OF rs] have l2: "list_all2 (\<lambda>iv r. csvFields cs cur iv = Inr r) ivs rows" .
  then have len: "length rows = length ivs"
    by (simp add: list_all2_lengthD)
  with ms have lx: "length rows = length xs"
    by (metis mset_eq_length)
  have each: "\<forall>j<length rows. \<exists>t s0 s1 s2 s3 s4 s9.
            calcTotals (ivs ! j) = Inr t
          \<and> ToString (js_or (getp (ivs ! j) ''invoiceNumber'') (Str [])) = Inr s0
          \<and> ToString (js_or (getp (ivs ! j) ''issueDate'') (Str [])) = Inr s1
          \<and> ToString (js_or (getp (ivs ! j) ''dueDate'') (Str [])) = Inr s2
          \<and> ToString (js_or (case clientsById_get cs (getp (ivs ! j) ''clientId'') of
                              None \<Rightarrow> Undefined | Some c \<Rightarrow> getp c ''name'') (Str [])) = Inr s3
          \<and> ToString (js_or (getp (ivs ! j) ''status'') (Str [])) = Inr s4
          \<and> ToString cur = Inr s9
          \<and> rows ! j = [quoted s0, quoted s1, quoted s2, quoted s3, quoted s4,
                        quoted (toFixed2 (net t)), quoted (numToString (vatRate t)),
                        quoted (toFixed2 (vat t)), quoted (toFixed2 (gross t)), quoted s9]"
  proof (intro allI impI)
    fix j assume j: "j < length rows"
    with l2 len have f: "csvFields cs cur (ivs ! j) = Inr (rows ! j)"
      by (simp add: list_all2_conv_all_nth)
    from csvFields_shape [OF f] obtain t s0 s1 s2 s3 s4 s9 where
      t: "calcTotals (ivs ! j) = Inr t"
      and s: "ToString (js_or (getp (ivs ! j) ''invoiceNumber'') (Str [])) = Inr s0"
        "ToString (js_or (getp (ivs ! j) ''issueDate'') (Str [])) = Inr s1"
        "ToString (js_or (getp (ivs ! j) ''dueDate'') (Str [])) = Inr s2"
        "ToString (js_or (case clientsById_get cs (getp (ivs ! j) ''clientId'') of
                              None \<Rightarrow> Undefined | Some c \<Rightarrow> getp c ''name'') (Str [])) = Inr s3"
        "ToString (js_or (getp (ivs ! j) ''status'') (Str [])) = Inr s4"
        "ToString (js_coalesce cur (Str [])) = Inr s9"
      and r: "rows ! j = [quoted s0, quoted s1, quoted s2, quoted s3, quoted s4,
                        quoted (toFixed2 (net t)), quoted (numToString (vatRate t)),
                        quoted (toFixed2 (vat t)), quoted (toFixed2 (gross t)), quoted s9]"
      by blast
    from s(6) have s9: "ToString cur = Inr s9"
      by (simp add: csvCurrency_text [OF cur])
    show "\<exists>t s0 s1 s2 s3 s4 s9.
            calcTotals (ivs ! j) = Inr t
          \<and> ToString (js_or (getp (ivs ! j) ''invoiceNumber'') (Str [])) = Inr s0
          \<and> ToString (js_or (getp (ivs ! j) ''issueDate'') (Str [])) = Inr s1
          \<and> ToString (js_or (getp (ivs ! j) ''dueDate'') (Str [])) = Inr s2
          \<and> ToString (js_or (case clientsById_get cs (getp (ivs ! j) ''clientId'') of
                              None \<Rightarrow> Undefined | Some c \<Rightarrow> getp c ''name'') (Str [])) = Inr s3
          \<and> ToString (js_or (getp (ivs ! j) ''status'') (Str [])) = Inr s4
          \<and> ToString cur = Inr s9
          \<and> rows ! j = [quoted s0, quoted s1, quoted s2, quoted s3, quoted s4,
                        quoted (toFixed2 (net t)), quoted (numToString (vatRate t)),
                        quoted (toFixed2 (vat t)), quoted (toFixed2 (gross t)), quoted s9]"
      using t s(1-5) s9 r by blast
  qed
  have two: "\<forall>q. \<bar>q\<bar> < 10 ^ 21 \<longrightarrow>
            two_decimals (toFixed2 (Fin q)) \<and> quoted (toFixed2 (Fin q)) = toFixed2 (Fin q)"
    using toFixed2_two_decimals by blast
  have qm: "\<forall>s. quoted s =
            (if \<exists>c\<in>set s. c = CHR 0x22 \<or> c = CHR '','' \<or> c = CHR 0x0A
             then [CHR 0x22] @ concat (map (\<lambda>c. if c = CHR 0x22 then [CHR 0x22, CHR 0x22] else [c]) s) @ [CHR 0x22]
             else s)"
    using quoted_meaning by blast
  from csv u' lx ms so cs cur each two qm show ?thesis
    by blast
qed

text \<open>
  C9 as stated fails: for a net amount of \<open>1e21\<close> the fields \<open>net\<close> and \<open>gross\<close> read
  \<open>1e+21\<close>, which has no decimals.
\<close>

theorem exportCSV_huge_amount:
  "exportCSV_rows demo_env huge_state =
     Inr [[''INV-0001'', ''2024-01-15'', ''2024-01-29'', [], ''Draft'', ''1e+21'', ''0'', ''0.00'', ''1e+21'', ''EUR'']]
   \<and> \<not> two_decimals ''1e+21''"
  by code_simp

theorem exportCSV_spec_witness:
  "getp (app (demo_ui demo_state)) ''invoices'' = Arr demo_invoices []
   \<and> consistent_cmp (localeCompare demo_env)
   \<and> (\<exists>csv u' rows. exportCSV demo_env (demo_ui demo_state) = Inr (csv, u')
         \<and> csv = joinWith [CHR 0x0A] (joinWith '','' header # map (joinWith '','') rows)
         \<and> length rows = 3
         \<and> toasts u' = [''CSV exported''])"
proof -
  have h1: "getp (app (demo_ui demo_state)) ''invoices'' = Arr demo_invoices []"
    by (simp add: demo_ui_def demo_state_def demo_props_def)
  have "\<not> isl (exportCSV demo_env (demo_ui demo_state))"
    by code_simp
  then obtain csv u' where r: "exportCSV demo_env (demo_ui demo_state) = Inr (csv, u')"
    by (cases "exportCSV demo_env (demo_ui demo_state)") auto
  from exportCSV_spec [OF r h1 consistent_str_cmp]
  obtain rows where "csv = joinWith [CHR 0x0A] (joinWith '','' header # map (joinWith '','') rows)"
    and "u' = (demo_ui demo_state)\<lparr>toasts := toasts (demo_ui demo_state) @ [''CSV exported'']\<rparr>"
    and "length rows = length demo_invoices"
    by blast
  then show ?thesis
    using r h1 consistent_str_cmp by (auto simp: demo_invoices_def demo_ui_def)
qed

section \<open>Idempotence of normalizeData\<close>

lemma keys_put:
  "map fst (put ps k v) = (if has_key ps k then map fst ps else map fst ps @ [k])"
  by (induction ps) auto

lemma put_new: "\<not> has_key ps k \<Longrightarrow> put ps k v = ps @ [(k, v)]"
  by (induction ps) auto

lemma put_append_notin: "\<not> has_key P k \<Longrightarrow> put (P @ Q) k v = P @ put Q k v"
  by (induction P) auto

lemma putAll_append: "putAll acc (xs @ ys) = putAll (putAll acc xs) ys"
  by (induction xs arbitrary: acc) auto

lemma putAll_fresh: "distinct (map fst (A @ X)) \<Longrightarrow> putAll A X = A @ X"
proof (induction X arbitrary: A)
  case Nil
  show ?case by simp
next
  case (Cons p X)
  obtain k v where p: "p = (k, v)" by (cases p)
  from Cons.prems p have nk: "\<not> has_key A k"
    by (auto simp: has_key_set)
  from Cons.prems p have "distinct (map fst ((A @ [(k, v)]) @ X))"
    by auto
  from Cons.IH [OF this] nk p show ?case
    by (simp add: put_new)
qed

lemma putAll_same_keys:
  "map fst Q' = map fst Q \<Longrightarrow> distinct (map fst (P @ Q)) \<Longrightarrow> putAll (P @ Q) Q' = P @ Q'"
proof (induction Q' arbitrary: P Q)
  case Nil
  then show ?case by simp
next
  case (Cons p Q')
  obtain k v' where p: "p = (k, v')" by (cases p)
  from Cons.prems(1) p obtain v Qt where Q: "Q = (k, v) # Qt" and m: "map fst Q' = map fst Qt"
    by (cases Q) auto
  from Cons.prems(2) Q have nk: "\<not> has_key P k"
    by (auto simp: has_key_set)
  from Cons.prems(2) Q have d: "distinct (map fst ((P @ [(k, v')]) @ Qt))"
    by auto
  have "put (P @ Q) k v' = (P @ [(k, v')]) @ Qt"
    using nk Q by (simp add: put_append_notin)
  with Cons.IH [OF m d] p show ?case
    by simp
qed

lemma putAll_keys:
  "distinct (map fst acc) \<Longrightarrow>
   distinct (map fst (putAll acc ps)) \<and> (\<exists>X. map fst (putAll acc ps) = map fst acc @ X)"
proof (induction ps arbitrary: acc)
  case Nil
  then show ?case by simp
next
  case (Cons p ps)
  obtain k v where p: "p = (k, v)" by (cases p)
  from Cons.prems have "distinct (map fst (put acc k v))"
    by (auto simp: keys_put has_key_set)
  from Cons.IH [OF this] obtain X where d: "distinct (map fst (putAll (put acc k v) ps))"
    and X: "map fst (putAll (put acc k v) ps) = map fst (put acc k v) @ X"
    by blast
  from X have "\<exists>Y. map fst (putAll (put acc k v) ps) = map fst acc @ Y"
    by (auto simp: keys_put)
  with d p show ?case by simp
qed

lemma putAll_idem:
  assumes "distinct (map fst B)"
  shows "putAll B (putAll B ps) = putAll B ps"
proof -
  let ?R = "putAll B ps"
  from putAll_keys [OF assms, of ps] obtain X where d: "distinct (map fst ?R)"
    and X: "map fst ?R = map fst B @ X"
    by blast
  let ?n = "length B"
  let ?R1 = "take ?n ?R" and ?R2 = "drop ?n ?R"
  from X have k1: "map fst ?R1 = map fst B"
    by (simp add: take_map [symmetric])
  have a: "putAll B ?R1 = ?R1"
    using putAll_same_keys [of ?R1 B "[]"] k1 assms by simp
  have b: "distinct (map fst (?R1 @ ?R2))"
    using d by simp
  have "putAll B (?R1 @ ?R2) = putAll (putAll B ?R1) ?R2"
    by (rule putAll_append)
  also have "\<dots> = putAll ?R1 ?R2"
    by (simp only: a)
  also have "\<dots> = ?R1 @ ?R2"
    using b by (rule putAll_fresh)
  finally show ?thesis
    by simp
qed

lemma distinct_base_settings: "distinct (map fst base_settings)"
  by (simp add: base_settings_def)

lemma distinct_base_profile: "distinct (map fst base_profile)"
  by (simp add: base_profile_def)

lemma spread_base_idem:
  "spread base_settings (js_or (Obj (spread base_settings v)) (Obj [])) = spread base_settings v"
  "spread base_profile (js_or (Obj (spread base_profile v)) (Obj [])) = spread base_profile v"
  by (simp_all add: spread_def js_or_def putAll_idem distinct_base_settings distinct_base_profile)

lemma assign_same:
  "is_obj d \<Longrightarrow> has_key (named_props d) k \<Longrightarrow> getp d k = v \<Longrightarrow> assign d k v = d"
  by (cases d) (auto simp: put_same)

lemma has_key_put: "has_key (put ps k v) k' = (k' = k \<or> has_key ps k')"
  by (induction ps) (auto split: if_splits)

lemma named_props_assign:
  "is_obj d \<Longrightarrow> has_key (named_props (assign d k v)) k' = (k' = k \<or> has_key (named_props d) k')"
  by (cases d) (auto simp: has_key_put)

lemma or_uid_truthy: "env_ok E \<Longrightarrow> or_uid E g v = (i, g1) \<Longrightarrow> truthy i"
  by (auto simp: or_uid_def env_ok_def split: if_splits)

lemma or_uid_keep: "truthy i \<Longrightarrow> or_uid E h i = (i, h)"
  by (simp add: or_uid_def)

lemma js_or_idem: "js_or (js_or x (Str [])) (Str []) = js_or x (Str [])"
  by (simp add: js_or_def)

lemma js_or_truthy: "truthy x \<Longrightarrow> js_or x y = x"
  by (simp add: js_or_def)

lemma finiteOr_Num: "finiteOr v d = Inr r \<Longrightarrow> \<exists>q. r = Num (Fin q) \<and> rnd q = Fin q"
  using toNumber_double [of v] by (fastforce simp: finiteOr_def split: sum.splits)

lemma finiteOr_keep: "rnd q = Fin q \<Longrightarrow> finiteOr (Num (Fin q)) d = Inr (Num (Fin q))"
  by (simp add: finiteOr_def finite_or_zero_def)

lemma normItem_idem:
  assumes E: "env_ok E" and n: "normItem E g it = Inr (it', g1)"
  shows "normItem E h it' = Inr (it', h)"
proof -
  from n obtain i q p where i: "or_uid E g (getp it ''id'') = (i, g1)"
    and q: "finiteOr (getp it ''qty'') (Num (Fin 1)) = Inr q"
    and p: "finiteOr (getp it ''unitPrice'') (Num (Fin 0)) = Inr p"
    and it': "it' = Obj [(''id'', i), (''desc'', js_or (getp it ''desc'') (Str [])), (''qty'', q),
                        (''unit'', js_or (getp it ''unit'') (Str [])), (''unitPrice'', p)]"
    by (auto simp: normItem_def Let_def split: if_splits prod.splits sum.splits)
  from or_uid_truthy [OF E i] have ti: "truthy i" .
  from finiteOr_Num [OF q] finiteOr_Num [OF p] obtain qq pq where "q = Num (Fin qq)" "p = Num (Fin pq)"
    and "rnd qq = Fin qq" "rnd pq = Fin pq"
    by blast
  with ti show ?thesis
    by (simp add: it' normItem_def or_uid_keep finiteOr_keep js_or_idem)
qed

lemma mapM_idem:
  assumes f: "\<And>g x y g1 h. f g x = Inr (y, g1) \<Longrightarrow> f' h y = Inr (y, h)"
  shows "mapM f g xs = Inr (ys, g1) \<Longrightarrow> mapM f' h ys = Inr (ys, h)"
proof (induction xs arbitrary: g ys)
  case Nil
  then show ?case by simp
next
  case (Cons x xs)
  from Cons.prems obtain y g2 ys' where y: "f g x = Inr (y, g2)"
    and r: "mapM f g2 xs = Inr (ys', g1)" and e: "ys = y # ys'"
    by (auto split: sum.splits prod.splits)
  from f [OF y] Cons.IH [OF r] e show ?case
    by simp
qed

lemma todayISO_truthy: "env_ok E \<Longrightarrow> truthy (todayISO E)"
  by (simp add: todayISO_def env_ok_def)

lemma addDaysISO_truthy: "env_ok E \<Longrightarrow> truthy d0 \<Longrightarrow> truthy (addDaysISO E d0 days)"
  by (auto simp: addDaysISO_def env_ok_def split: sum.splits option.splits)

lemma blank_item_idem: "truthy i \<Longrightarrow> normItem E h (blank_item i) = Inr (blank_item i, h)"
  by (simp add: blank_item_def normItem_def or_uid_keep finiteOr_keep rnd_0 rnd_1 js_or_def)

lemma normInvoice_idem:
  assumes E: "env_ok E" and n: "normInvoice E st g iv = Inr (iv', g1)"
  shows "normInvoice E st' h iv' = Inr (iv', h)"
proof -
  define issue where "issue = js_or (getp iv ''issueDate'') (todayISO E)"
  define due where "due = js_or (getp iv ''dueDate'') (addDaysISO E issue (getp st ''defaultDueDays''))"
  define status where "status = (if getp iv ''status'' \<in> set STATUS then getp iv ''status'' else Str ''Draft'')"
  define nts where "nts = (if typeof_string (getp iv ''notes'') then getp iv ''notes'' else Str [])"
  from n obtain i g0 r its where i: "or_uid E g (getp iv ''id'') = (i, g0)"
    and r: "finiteOr (getp iv ''vatRate'') (getp st ''defaultVatRate'') = Inr r"
    and its: "(if Array_isArray (getp iv ''items'')
               then mapM (normItem E) g0 (elems (getp iv ''items''))
               else Inr ([blank_item (Str (uidOf E g0))], Suc g0)) = Inr (its, g1)"
    and iv': "iv' = Obj [(''id'', i),
                        (''invoiceNumber'', js_or (getp iv ''invoiceNumber'') (Str [])),
                        (''issueDate'', issue), (''dueDate'', due),
                        (''clientId'', js_or (getp iv ''clientId'') (Str [])),
                        (''status'', status), (''vatRate'', r), (''items'', Arr its []),
                        (''notes'', nts)]"
    by (auto simp: normInvoice_def Let_def issue_def due_def status_def nts_def
        split: if_splits prod.splits sum.splits)
  from or_uid_truthy [OF E i] have ti: "truthy i" .
  have tissue: "truthy issue"
    using todayISO_truthy [OF E] by (simp add: issue_def js_or_def)
  have tdue: "truthy due"
    using addDaysISO_truthy [OF E tissue] by (simp add: due_def js_or_def)
  from finiteOr_Num [OF r] obtain rq where rq: "r = Num (Fin rq)" and rd: "rnd rq = Fin rq"
    by blast
  have st: "status \<in> set STATUS"
    by (simp add: status_def STATUS_def)
  have nt: "typeof_string nts"
    by (simp add: nts_def)
  have items: "mapM (normItem E) h its = Inr (its, h)"
  proof (cases "Array_isArray (getp iv ''items'')")
    case True
    with its have "mapM (normItem E) g0 (elems (getp iv ''items'')) = Inr (its, g1)"
      by simp
    then show ?thesis
      using normItem_idem [OF E] by (rule mapM_idem [rotated])
  next
    case False
    with its have "its = [blank_item (Str (uidOf E g0))]"
      by simp
    moreover have "truthy (Str (uidOf E g0))"
      using E by (simp add: env_ok_def)
    ultimately show ?thesis
      by (simp add: blank_item_idem)
  qed
  show ?thesis
    using ti tissue tdue st nt items rd
    by (simp add: iv' rq normInvoice_def or_uid_keep finiteOr_keep js_or_idem js_or_truthy)
qed

lemma normClient_idem:
  assumes E: "env_ok E" and n: "normClient E g c = Inr (c', g1)"
  shows "normClient E h c' = Inr (c', h)"
proof -
  from n obtain i where i: "or_uid E g (getp c ''id'') = (i, g1)"
    and c': "c' = Obj [(''id'', i),
                      (''name'', js_or (getp c ''name'') (Str [])),
                      (''address'', js_or (getp c ''address'') (Str [])),
                      (''email'', js_or (getp c ''email'') (Str [])),
                      (''phone'', js_or (getp c ''phone'') (Str [])),
                      (''contact'', js_or (getp c ''contact'') (Str [])),
                      (''notes'', js_or (getp c ''notes'') (Str []))]"
    by (auto simp: normClient_def Let_def split: if_splits prod.splits)
  from or_uid_truthy [OF E i] have "truthy i" .
  then show ?thesis
    by (simp add: c' normClient_def or_uid_keep js_or_idem)
qed

lemma normalizeSteps_idem:
  assumes E: "env_ok E" and o: "is_obj d" and n: "normalizeSteps E g d = Inr (d', g')"
  shows "normalizeSteps E h d' = Inr (d', h)"
proof -
  define sv where "sv = js_or (getp d ''settings'') (Obj [])"
  define st where "st = Obj (spread base_settings sv)"
  define d1 where "d1 = assign d ''settings'' st"
  define pv where "pv = js_or (getp d1 ''profile'') (Obj [])"
  define pf where "pf = Obj (spread base_profile pv)"
  define d2 where "d2 = assign d1 ''profile'' pf"
  define d3 where "d3 = assign d2 ''clients'' (arrayOrEmpty (getp d2 ''clients''))"
  define d4 where "d4 = assign d3 ''invoices'' (arrayOrEmpty (getp d3 ''invoices''))"
  have o4: "is_obj d4" "is_obj d3" "is_obj d2" "is_obj d1"
    using o by (simp_all add: d4_def d3_def d2_def d1_def is_obj_assign)
  have s4: "getp d4 ''settings'' = st"
    using o4 o by (simp add: d4_def d3_def d2_def d1_def getp_assign is_obj_assign)
  from n obtain ivs g1 cs where
    mi: "mapM (normInvoice E st) g (elems (getp d4 ''invoices'')) = Inr (ivs, g1)"
    and mc: "mapM (normClient E) g1 (elems (getp (assign d4 ''invoices'' (Arr ivs [])) ''clients'')) = Inr (cs, g')"
    and d': "d' = assign (assign d4 ''invoices'' (Arr ivs [])) ''clients'' (Arr cs [])"
    unfolding normalizeSteps_def Let_def
    by (fold sv_def) (fold st_def, fold d1_def, fold pv_def, fold pf_def, fold d2_def, fold d3_def,
        fold d4_def, auto simp: s4 split: sum.splits)
  have od: "is_obj d'"
    using o4 by (simp add: d' is_obj_assign)
  have gs: "getp d' ''settings'' = st"
    using o4 s4 by (simp add: d' getp_assign is_obj_assign)
  have gp: "getp d' ''profile'' = pf"
    using o4 by (simp add: d' d4_def d3_def d2_def getp_assign is_obj_assign)
  have gc: "getp d' ''clients'' = Arr cs []"
    using o4 by (simp add: d' getp_assign is_obj_assign)
  have gi: "getp d' ''invoices'' = Arr ivs []"
    using o4 by (simp add: d' getp_assign is_obj_assign)
  have hk: "has_key (named_props d') ''settings''" "has_key (named_props d') ''profile''"
    "has_key (named_props d') ''clients''" "has_key (named_props d') ''invoices''"
    using o4 o by (simp_all add: d' d4_def d3_def d2_def d1_def named_props_assign is_obj_assign)
  have st': "Obj (spread base_settings (js_or st (Obj []))) = st"
    by (simp add: st_def spread_base_idem)
  have pf': "Obj (spread base_profile (js_or pf (Obj []))) = pf"
    by (simp add: pf_def spread_base_idem)
  have a1: "assign d' ''settings'' st = d'"
    using od hk(1) gs by (rule assign_same)
  have a2: "assign d' ''profile'' pf = d'"
    using od hk(2) gp by (rule assign_same)
  have a3: "assign d' ''clients'' (Arr cs []) = d'"
    using od hk(3) gc by (rule assign_same)
  have a4: "assign d' ''invoices'' (Arr ivs []) = d'"
    using od hk(4) gi by (rule assign_same)
  have i2: "mapM (normInvoice E st) h ivs = Inr (ivs, h)"
    using mi normInvoice_idem [OF E] by (rule mapM_idem [rotated])
  have c2: "mapM (normClient E) h cs = Inr (cs, h)"
    using mc normClient_idem [OF E] by (rule mapM_idem [rotated])
  show ?thesis
    unfolding normalizeSteps_def Let_def
    by (simp add: gs gp gc gi st' pf' a1 a2 a3 a4 arrayOrEmpty_def i2 c2)
qed

lemma normalizeSteps_is_obj: "is_obj d \<Longrightarrow> normalizeSteps E g d = Inr (d', g') \<Longrightarrow> is_obj d'"
  by (auto simp: normalizeSteps_def Let_def is_obj_assign split: sum.splits)

lemma normalizeData_idem:
  assumes E: "env_ok E" and n: "normalizeData E g raw = Inr (d, g')"
  shows "normalizeData E h d = Inr (d, h)"
proof -
  let ?d0 = "if is_obj raw then raw else base"
  have o: "is_obj ?d0"
    by (simp add: not_is_obj_base)
  from n have s: "normalizeSteps E g ?d0 = Inr (d, g')"
    by (simp add: normalizeData_is_obj)
  from normalizeSteps_is_obj [OF o s] have "is_obj d" .
  then have "normalizeData E h d = normalizeSteps E h d"
    by (simp add: normalizeData_is_obj)
  with normalizeSteps_idem [OF E o s] show ?thesis
    by simp
qed

lemma env_ok_demo: "env_ok demo_env"
  by (simp add: env_ok_def demo_env_def)

text \<open>
  C4. With the clock and the runtime held fixed, normalizing twice gives what normalizing
  once gives, an exception of the first call included. When \<open>normalizeData\<close> returns the
  state \<open>d\<close>, normalizing \<open>d\<close> again returns \<open>d\<close> itself, from any state of the identifier
  generator, and calls the generator not at all.
\<close>

theorem normalizeData_idempotent:
  assumes "env_ok E"
  shows "normalizeTwice E g raw = normalizeData E g raw
     \<and> (\<forall>d g' h. normalizeData E g raw = Inr (d, g') \<longrightarrow> normalizeData E h d = Inr (d, h))"
proof -
  have a: "\<forall>d g' h. normalizeData E g raw = Inr (d, g') \<longrightarrow> normalizeData E h d = Inr (d, h)"
    using normalizeData_idem [OF assms] by blast
  then have "normalizeTwice E g raw = normalizeData E g raw"
    by (auto simp: normalizeTwice_def split: sum.splits)
  with a show ?thesis by simp
qed

theorem normalizeData_idempotent_witness:
  "env_ok demo_env
   \<and> normalizeData demo_env 0 blank_doc = Inr (blank_state demo_env 0, 2)
   \<and> normalizeData demo_env 7 (blank_state demo_env 0) = Inr (blank_state demo_env 0, 7)
   \<and> normalizeTwice demo_env 0 blank_doc = Inr (blank_state demo_env 0, 2)"
proof -
  have n: "normalizeData demo_env 0 blank_doc = Inr (blank_state demo_env 0, 2)"
    using normalize_blank_eval [of demo_env 0] by simp
  from normalizeData_idempotent [OF env_ok_demo, of 0 blank_doc] n
  have "normalizeData demo_env 7 (blank_state demo_env 0) = Inr (blank_state demo_env 0, 7)"
    and "normalizeTwice demo_env 0 blank_doc = Inr (blank_state demo_env 0, 2)"
    by simp_all
  with n env_ok_demo show ?thesis by simp
qed

end
